(* ===== verification/Prelude.thy ===== *)
theory Prelude
  imports Main "HOL-Library.Word" "HOL-Library.Sublist"
begin

unbundle bit_operations_syntax

section \<open>Shared vocabulary of the development\<close>

text \<open>
  What every component uses: the machine integers of the Rust sources as words of their
  width, byte slices and UTF-8 strings, fallible results as sums, clocks, and the functions
  of the Rust standard library on strings and slices that the sources call. A Rust
  \<open>String\<close> or \<open>&str\<close> is a \<open>string\<close> whose characters are its UTF-8 bytes, so \<open>length\<close> counts
  bytes as \<open>str::len\<close> does; a \<open>[u8]\<close> is a list of \<open>8 word\<close>.
\<close>

named_theorems rust_std \<open>facts about the modelled functions of the Rust standard library\<close>
named_theorems abi_consts \<open>the numeric and textual constants of the sources, unfolded\<close>

type_synonym u8 = "8 word"
type_synonym u16 = "16 word"
type_synonym u32 = "32 word"
type_synonym u64 = "64 word"
type_synonym bytes = "8 word list"

text \<open>
  Times are nanoseconds. \<open>SystemTime\<close> may lie before the epoch and is an \<open>int\<close>;
  \<open>Instant\<close> and \<open>Duration\<close> are \<open>nat\<close>.
\<close>

type_synonym system_time = int
type_synonym duration = nat
type_synonym instant = nat

definition from_secs :: "nat \<Rightarrow> duration" where
  "from_secs s = s * 1000000000"

definition as_secs :: "duration \<Rightarrow> nat" where
  "as_secs d = d div 1000000000"

lemma as_secs_from_secs [simp, rust_std]: "as_secs (from_secs s) = s"
  by (simp add: as_secs_def from_secs_def)

text \<open>
  \<open>SystemTime::checked_add\<close>: the seconds of a Unix \<open>SystemTime\<close> are an \<open>i64\<close>, and the
  result is \<open>None\<close> when they overflow.
\<close>

definition checked_add_time :: "system_time \<Rightarrow> duration \<Rightarrow> system_time option" where
  "checked_add_time t d =
     (let s = t + int d in if s div 1000000000 < 2 ^ 63 then Some s else None)"

lemma checked_add_time_Some [rust_std]: "checked_add_time t d = Some s \<Longrightarrow> s = t + int d"
  by (auto simp: checked_add_time_def Let_def split: if_splits)

text \<open>\<open>Instant::duration_since\<close> and \<open>elapsed\<close> saturate at zero.\<close>

definition duration_since :: "instant \<Rightarrow> instant \<Rightarrow> duration" where
  "duration_since now earlier = now - earlier"

subsection \<open>Bounded quantifiers over indices\<close>

lemma ex_ge_Suc: "(\<exists>j. i \<le> j \<and> P j) \<longleftrightarrow> P i \<or> (\<exists>j. Suc i \<le> j \<and> P j)" for i :: nat
  by (auto simp: Suc_le_eq dest: le_imp_less_or_eq intro: less_imp_le)

lemma all_ge_Suc: "(\<forall>j. i \<le> j \<longrightarrow> P j) \<longleftrightarrow> P i \<and> (\<forall>j. Suc i \<le> j \<longrightarrow> P j)" for i :: nat
  by (auto simp: Suc_le_eq dest: le_imp_less_or_eq intro: less_imp_le)

subsection \<open>Results\<close>

text \<open>The \<open>?\<close> operator: a computation continues with the value or returns the error.\<close>

fun and_then :: "'e + 'a \<Rightarrow> ('a \<Rightarrow> 'e + 'b) \<Rightarrow> 'e + 'b" where
  "and_then (Inl e) f = Inl e"
| "and_then (Inr x) f = f x"

lemma and_then_Inr [simp]: "and_then r f = Inr y \<longleftrightarrow> (\<exists>x. r = Inr x \<and> f x = Inr y)"
  by (cases r) auto

lemma and_then_Inl: "and_then r f = Inl e \<longleftrightarrow> r = Inl e \<or> (\<exists>x. r = Inr x \<and> f x = Inl e)"
  by (cases r) auto

definition ok_or :: "'a option \<Rightarrow> 'e \<Rightarrow> 'e + 'a" where
  "ok_or x e = (case x of None \<Rightarrow> Inl e | Some v \<Rightarrow> Inr v)"

lemma ok_or_simps [simp]: "ok_or None e = Inl e" "ok_or (Some v) e = Inr v"
  by (simp_all add: ok_or_def)

lemma ok_or_Inr [simp]: "ok_or x e = Inr v \<longleftrightarrow> x = Some v"
  by (cases x) auto

text \<open>\<open>collect::<Result<Vec<_>, _>>\<close> and the push loops that return on the first error.\<close>

fun try_map :: "('a \<Rightarrow> 'e + 'b) \<Rightarrow> 'a list \<Rightarrow> 'e + 'b list" where
  "try_map f [] = Inr []"
| "try_map f (x # xs) =
     (case f x of Inl e \<Rightarrow> Inl e
      | Inr y \<Rightarrow> (case try_map f xs of Inl e \<Rightarrow> Inl e | Inr ys \<Rightarrow> Inr (y # ys)))"

lemma try_map_Inr: "try_map f xs = Inr ys \<longleftrightarrow> list_all2 (\<lambda>x y. f x = Inr y) xs ys"
proof (induction xs arbitrary: ys)
  case Nil
  show ?case by auto
next
  case (Cons x xs)
  then show ?case
    by (cases ys) (auto simp: Cons.IH [symmetric] split: sum.splits)
qed

lemma try_map_total: "(\<And>x. x \<in> set xs \<Longrightarrow> f x = Inr (g x)) \<Longrightarrow> try_map f xs = Inr (map g xs)"
  by (induction xs) auto

lemma try_map_Inl: "try_map f xs = Inl e \<Longrightarrow> \<exists>x \<in> set xs. f x = Inl e"
  by (induction xs) (auto split: sum.splits)

lemma try_map_map: "try_map f (map g xs) = try_map (\<lambda>x. f (g x)) xs"
  by (induction xs) (auto split: sum.splits)

subsection \<open>Fixed-size arrays\<close>

text \<open>
  \<open>buf[start..start + n].copy_from_slice(src)\<close> on a buffer that is long enough. The length
  of the buffer never changes.
\<close>

definition copy_at :: "nat \<Rightarrow> 'a list \<Rightarrow> 'a list \<Rightarrow> 'a list" where
  "copy_at start src buf = take start buf @ src @ drop (start + length src) buf"

lemma length_copy_at [simp]: "start + length src \<le> length buf \<Longrightarrow> length (copy_at start src buf) = length buf"
  by (simp add: copy_at_def)

lemma take_copy_at_0 [simp]: "take (length src) (copy_at 0 src buf) = src"
  by (simp add: copy_at_def)

lemma copy_at_0_replicate:
  "length src \<le> n \<Longrightarrow> copy_at 0 src (replicate n z) = src @ replicate (n - length src) z"
  by (simp add: copy_at_def)

text \<open>\<open>slice[a..b]\<close> with \<open>a <= b <= len\<close>.\<close>

definition slice :: "nat \<Rightarrow> nat \<Rightarrow> 'a list \<Rightarrow> 'a list" where
  "slice a b xs = take (b - a) (drop a xs)"

lemma length_slice [simp]: "b \<le> length xs \<Longrightarrow> length (slice a b xs) = b - a"
  by (simp add: slice_def)

lemma slice_copy_at [simp]:
  "start + length src \<le> length buf \<Longrightarrow>
   slice start (start + length src) (copy_at start src buf) = src"
  by (simp add: slice_def copy_at_def)

lemma slice_copy_at_after:
  "start + length src \<le> length buf \<Longrightarrow> start + length src \<le> a \<Longrightarrow>
   slice a b (copy_at start src buf) = slice a b buf"
  by (simp add: slice_def copy_at_def)

lemma slice_copy_at_before:
  "b \<le> start \<Longrightarrow> start \<le> length buf \<Longrightarrow> slice a b (copy_at start src buf) = slice a b buf"
  by (cases "a \<le> b") (auto simp: slice_def copy_at_def drop_take min_def)

text \<open>\<open>iter().position(p)\<close> with \<open>unwrap_or(len)\<close>, and the C-string prefix it delimits.\<close>

fun position :: "('a \<Rightarrow> bool) \<Rightarrow> 'a list \<Rightarrow> nat option" where
  "position p [] = None"
| "position p (x # xs) = (if p x then Some 0 else map_option Suc (position p xs))"

lemma position_None [rust_std]: "position p xs = None \<longleftrightarrow> (\<forall>x \<in> set xs. \<not> p x)"
  by (induction xs) auto

lemma position_Some:
  "position p xs = Some i \<Longrightarrow> i < length xs \<and> p (xs ! i) \<and> (\<forall>x \<in> set (take i xs). \<not> p x)"
  by (induction xs arbitrary: i) (auto split: if_splits)

definition cstr_bytes :: "bytes \<Rightarrow> bytes" where
  "cstr_bytes bs = (case position (\<lambda>b. b = 0) bs of None \<Rightarrow> bs | Some n \<Rightarrow> take n bs)"

lemma cstr_bytes_takeWhile: "cstr_bytes bs = takeWhile (\<lambda>b. b \<noteq> 0) bs"
proof -
  have "case position (\<lambda>b. b = 0) bs of None \<Rightarrow> bs = takeWhile (\<lambda>b. b \<noteq> 0) bs
        | Some n \<Rightarrow> take n bs = takeWhile (\<lambda>b. b \<noteq> 0) bs"
    by (induction bs) (auto split: option.splits)
  then show ?thesis
    by (auto simp: cstr_bytes_def split: option.splits)
qed

lemma length_cstr_bytes: "length (cstr_bytes bs) \<le> length bs"
  by (simp add: cstr_bytes_takeWhile length_takeWhile_le)

lemma cstr_bytes_no_nul [simp]: "0 \<notin> set (cstr_bytes bs)"
  by (auto simp: cstr_bytes_takeWhile dest: set_takeWhileD)

lemma cstr_bytes_append_nul: "0 \<notin> set xs \<Longrightarrow> cstr_bytes (xs @ 0 # ys) = xs"
  by (simp add: cstr_bytes_takeWhile) (metis (mono_tags, lifting) takeWhile_append2 append.right_neutral takeWhile.simps(2))

lemma cstr_bytes_id: "0 \<notin> set xs \<Longrightarrow> cstr_bytes xs = xs"
  by (auto simp: cstr_bytes_takeWhile takeWhile_eq_all_conv)

lemma cstr_bytes_pad: "0 \<notin> set xs \<Longrightarrow> cstr_bytes (xs @ replicate k 0) = xs"
  by (cases k) (simp_all add: cstr_bytes_id cstr_bytes_append_nul)

end
