(* ===== verification/Rust_Str.thy ===== *)
theory Rust_Str
  imports Prelude
begin

section \<open>Strings: the parts of \<open>core::str\<close> the sources use\<close>

text \<open>
  Prefix, suffix and substring search, splitting, trimming, decimal conversion and UTF-8
  validation, each with the fact that says what it computes.
\<close>

subsection \<open>Bytes of a string\<close>

definition str_bytes :: "string \<Rightarrow> bytes" where
  "str_bytes s = map of_char s"

definition bytes_str :: "bytes \<Rightarrow> string" where
  "bytes_str bs = map (\<lambda>b. char_of (unat b)) bs"

lemma of_char_char_of_unat: "(of_char (char_of (unat b)) :: u8) = b"
proof -
  have "(of_char (char_of (unat b)) :: u8) = of_nat (of_char (char_of (unat b)))"
    by (simp only: of_nat_of_char)
  also have "\<dots> = of_nat (unat b mod 256)"
    by (simp only: of_char_of)
  also have "\<dots> = b"
  proof -
    have "unat b < 2 ^ LENGTH(8)" by (rule unsigned_less)
    then show ?thesis by simp
  qed
  finally show ?thesis .
qed

lemma char_of_unat_of_char: "char_of (unat (of_char c :: u8)) = c"
proof -
  have "unat (of_char c :: u8) = unat (of_nat (of_char c) :: u8)"
    by (simp only: of_nat_of_char)
  also have "\<dots> = of_char c mod 256"
    by (simp only: unat_of_nat) simp
  also have "\<dots> = of_char c"
    by (rule of_char_mod_256)
  finally show ?thesis by (simp only: char_of_char)
qed

lemma str_bytes_bytes_str [simp]: "str_bytes (bytes_str bs) = bs"
  by (simp add: str_bytes_def bytes_str_def map_idI of_char_char_of_unat)

lemma bytes_str_str_bytes [simp]: "bytes_str (str_bytes s) = s"
  by (simp add: str_bytes_def bytes_str_def map_idI char_of_unat_of_char)

lemma str_bytes_inject [simp]: "str_bytes s = str_bytes t \<longleftrightarrow> s = t"
  by (metis bytes_str_str_bytes)

lemma length_str_bytes [simp]: "length (str_bytes s) = length s"
  by (simp add: str_bytes_def)

lemma length_bytes_str [simp]: "length (bytes_str s) = length s"
  by (simp add: bytes_str_def)

lemma str_bytes_append [simp]: "str_bytes (s @ t) = str_bytes s @ str_bytes t"
  by (simp add: str_bytes_def)

lemma str_bytes_eq_Nil [simp]: "str_bytes s = [] \<longleftrightarrow> s = []"
  by (simp add: str_bytes_def)

lemma take_str_bytes: "take n (str_bytes s) = str_bytes (take n s)"
  by (simp add: str_bytes_def take_map)

subsection \<open>Prefixes, suffixes, search\<close>

definition starts_with :: "'a list \<Rightarrow> 'a list \<Rightarrow> bool" where
  "starts_with s p \<longleftrightarrow> take (length p) s = p"

definition ends_with :: "'a list \<Rightarrow> 'a list \<Rightarrow> bool" where
  "ends_with s p \<longleftrightarrow> starts_with (rev s) (rev p)"

definition strip_prefix :: "'a list \<Rightarrow> 'a list \<Rightarrow> 'a list option" where
  "strip_prefix s p = (if starts_with s p then Some (drop (length p) s) else None)"

definition strip_suffix :: "'a list \<Rightarrow> 'a list \<Rightarrow> 'a list option" where
  "strip_suffix s p = (if ends_with s p then Some (take (length s - length p) s) else None)"

fun find_sub :: "'a list \<Rightarrow> 'a list \<Rightarrow> nat option" where
  "find_sub p [] = (if p = [] then Some 0 else None)"
| "find_sub p (x # xs) =
     (if starts_with (x # xs) p then Some 0 else map_option Suc (find_sub p xs))"

definition contains_sub :: "'a list \<Rightarrow> 'a list \<Rightarrow> bool" where
  "contains_sub s p \<longleftrightarrow> find_sub p s \<noteq> None"

definition split_once :: "'a list \<Rightarrow> 'a list \<Rightarrow> ('a list \<times> 'a list) option" where
  "split_once s d =
     map_option (\<lambda>i. (take i s, drop (i + length d) s)) (find_sub d s)"

fun split_on :: "'a \<Rightarrow> 'a list \<Rightarrow> 'a list list" where
  "split_on c [] = [[]]"
| "split_on c (x # xs) =
     (if x = c then [] # split_on c xs
      else (case split_on c xs of [] \<Rightarrow> [[x]] | p # ps \<Rightarrow> (x # p) # ps))"

definition replace_char :: "char \<Rightarrow> char \<Rightarrow> string \<Rightarrow> string" where
  "replace_char a b s = map (\<lambda>c. if c = a then b else c) s"

lemma starts_with_append [simp]: "starts_with (p @ t) p"
  by (simp add: starts_with_def)

lemma starts_with_iff: "starts_with s p \<longleftrightarrow> (\<exists>t. s = p @ t)"
  by (metis append_take_drop_id starts_with_append starts_with_def)

lemma starts_with_Nil [simp]: "starts_with s []"
  by (simp add: starts_with_def)

lemma starts_with_Cons [simp]:
  "starts_with (x # xs) (y # ys) \<longleftrightarrow> x = y \<and> starts_with xs ys"
  by (auto simp: starts_with_def)

lemma starts_with_Nil_Cons [simp]: "\<not> starts_with [] (y # ys)"
  by (simp add: starts_with_def)

lemma starts_with_length: "starts_with s p \<Longrightarrow> length p \<le> length s"
  by (auto simp: starts_with_iff)

lemma starts_with_str_bytes [simp]: "starts_with (str_bytes s) (str_bytes p) \<longleftrightarrow> starts_with s p"
  by (simp add: starts_with_def take_str_bytes)

lemma ends_with_iff: "ends_with s p \<longleftrightarrow> (\<exists>t. s = t @ p)"
proof -
  have "(\<exists>t. rev s = rev p @ t) \<longleftrightarrow> (\<exists>t. s = t @ p)"
    by (metis rev_append rev_rev_ident)
  then show ?thesis
    by (simp add: ends_with_def starts_with_iff)
qed

lemma strip_prefix_Some: "strip_prefix s p = Some r \<longleftrightarrow> s = p @ r"
  by (auto simp: strip_prefix_def starts_with_iff)

lemma strip_suffix_Some: "strip_suffix s p = Some r \<longleftrightarrow> s = r @ p"
  by (auto simp: strip_suffix_def ends_with_iff)

lemma find_sub_Some: "find_sub p s = Some i \<Longrightarrow> starts_with (drop i s) p \<and> i \<le> length s"
  by (induction p s arbitrary: i rule: find_sub.induct) (auto split: if_splits)

lemma find_sub_append: "find_sub p (s @ p @ t) \<noteq> None"
proof (induction s)
  case Nil
  have "starts_with (p @ t) p" by simp
  then show ?case by (cases "p @ t") (auto simp del: starts_with_Cons)
next
  case (Cons x s)
  then show ?case by auto
qed

lemma contains_sub_iff: "contains_sub s p \<longleftrightarrow> (\<exists>a b. s = a @ p @ b)"
proof
  assume "contains_sub s p"
  then obtain i where "find_sub p s = Some i"
    by (auto simp: contains_sub_def)
  then have "starts_with (drop i s) p"
    by (rule find_sub_Some [THEN conjunct1])
  then obtain t where "drop i s = p @ t"
    by (auto simp: starts_with_iff)
  then have "s = take i s @ p @ t"
    by (metis append_take_drop_id)
  then show "\<exists>a b. s = a @ p @ b" by blast
next
  assume "\<exists>a b. s = a @ p @ b"
  then show "contains_sub s p"
    using find_sub_append by (fastforce simp: contains_sub_def)
qed

lemma find_sub_single: "find_sub [c] s = position (\<lambda>x. x = c) s"
  by (induction s) auto

lemma split_once_char:
  "c \<notin> set a \<Longrightarrow> split_once (a @ c # b) [c] = Some (a, b)"
proof -
  assume c: "c \<notin> set a"
  have "find_sub [c] (a @ c # b) = Some (length a)"
    using c by (induction a) auto
  then show ?thesis by (simp add: split_once_def)
qed

lemma split_once_Some:
  assumes "split_once s d = Some (a, b)"
  shows "s = a @ d @ b"
proof -
  from assms obtain i where i: "find_sub d s = Some i" and a: "a = take i s"
    and b: "b = drop (i + length d) s"
    by (auto simp: split_once_def)
  from find_sub_Some [OF i] obtain t where "drop i s = d @ t"
    by (auto simp: starts_with_iff)
  moreover from this have "t = drop (i + length d) s"
    by (metis add.commute append_eq_conv_conj drop_drop)
  ultimately show ?thesis
    using a b by (metis append_take_drop_id)
qed

lemma split_once_None_char: "split_once s [c] = None \<longleftrightarrow> c \<notin> set s"
  by (auto simp: split_once_def find_sub_single position_None)

lemma split_once_char_name: "split_once s [c] = Some (a, b) \<Longrightarrow> c \<notin> set a"
  by (auto simp: split_once_def find_sub_single dest: position_Some)

lemma length_replace_char [simp]: "length (replace_char a b s) = length s"
  by (simp add: replace_char_def)

subsection \<open>Trimming\<close>

text \<open>
  \<open>str::trim\<close> removes every character of Unicode's \<open>White_Space\<close> property at both ends.
  The list holds the UTF-8 encoding of each of them.
\<close>

definition white_space :: "string list" where
  "white_space =
     map bytes_str
       ([[9], [10], [11], [12], [13], [32], [0xC2, 0x85], [0xC2, 0xA0], [0xE1, 0x9A, 0x80],
         [0xE2, 0x80, 0xA8], [0xE2, 0x80, 0xA9], [0xE2, 0x80, 0xAF], [0xE2, 0x81, 0x9F],
         [0xE3, 0x80, 0x80]]
        @ map (\<lambda>b. [0xE2, 0x80, b])
            [0x80, 0x81, 0x82, 0x83, 0x84, 0x85, 0x86, 0x87, 0x88, 0x89, 0x8A])"

function strip_leading :: "'a list list \<Rightarrow> 'a list \<Rightarrow> 'a list" where
  "strip_leading ws s =
     (case find (\<lambda>w. w \<noteq> [] \<and> starts_with s w) ws of
        None \<Rightarrow> s
      | Some w \<Rightarrow> strip_leading ws (drop (length w) s))"
  by pat_completeness auto
termination
  by (relation "measure (\<lambda>(ws, s). length s)")
    (auto simp: find_Some_iff starts_with_iff)

declare strip_leading.simps [simp del]

definition trim_start :: "string \<Rightarrow> string" where
  "trim_start s = strip_leading white_space s"

definition trim_end :: "string \<Rightarrow> string" where
  "trim_end s = rev (strip_leading (map rev white_space) (rev s))"

definition trim :: "string \<Rightarrow> string" where
  "trim s = trim_end (trim_start s)"

definition trim_end_matches :: "char \<Rightarrow> string \<Rightarrow> string" where
  "trim_end_matches c s = rev (dropWhile (\<lambda>x. x = c) (rev s))"

lemma strip_leading_done:
  "(\<And>w. w \<in> set ws \<Longrightarrow> w \<noteq> [] \<Longrightarrow> \<not> starts_with s w) \<Longrightarrow> strip_leading ws s = s"
proof -
  assume "\<And>w. w \<in> set ws \<Longrightarrow> w \<noteq> [] \<Longrightarrow> \<not> starts_with s w"
  then have "find (\<lambda>w. w \<noteq> [] \<and> starts_with s w) ws = None"
    by (auto simp: find_None_iff)
  then show ?thesis by (subst strip_leading.simps) simp
qed

lemma strip_leading_stops:
  "w \<in> set ws \<Longrightarrow> w \<noteq> [] \<Longrightarrow> \<not> starts_with (strip_leading ws s) w"
proof (induction ws s rule: strip_leading.induct)
  case (1 ws s)
  show ?case
  proof (cases "find (\<lambda>w. w \<noteq> [] \<and> starts_with s w) ws")
    case None
    then have "strip_leading ws s = s"
      by (subst strip_leading.simps) simp
    with None "1.prems" show ?thesis
      by (auto simp: find_None_iff)
  next
    case (Some v)
    with "1" show ?thesis
      by (subst strip_leading.simps) simp
  qed
qed

lemma strip_leading_idem [simp]: "strip_leading ws (strip_leading ws s) = strip_leading ws s"
  by (rule strip_leading_done) (simp add: strip_leading_stops)

lemma strip_leading_suffix: "\<exists>t. s = t @ strip_leading ws s"
proof (induction ws s rule: strip_leading.induct)
  case (1 ws s)
  show ?case
  proof (cases "find (\<lambda>w. w \<noteq> [] \<and> starts_with s w) ws")
    case None
    then show ?thesis by (subst strip_leading.simps) simp
  next
    case (Some v)
    then have s: "s = v @ drop (length v) s"
      by (auto simp: find_Some_iff starts_with_iff)
    from "1" [OF Some] obtain t where "drop (length v) s = t @ strip_leading ws (drop (length v) s)"
      by blast
    with s have "s = (v @ t) @ strip_leading ws (drop (length v) s)"
      by (metis append.assoc)
    moreover from Some have "strip_leading ws s = strip_leading ws (drop (length v) s)"
      by (subst strip_leading.simps) simp
    ultimately show ?thesis by metis
  qed
qed

subsection \<open>Decimal numbers\<close>

definition is_ascii_digit :: "char \<Rightarrow> bool" where
  "is_ascii_digit c \<longleftrightarrow> 48 \<le> (of_char c :: nat) \<and> (of_char c :: nat) \<le> 57"

fun digits_value :: "nat \<Rightarrow> string \<Rightarrow> nat option" where
  "digits_value acc [] = Some acc"
| "digits_value acc (c # cs) =
     (if is_ascii_digit c then digits_value (10 * acc + (of_char c - 48)) cs else None)"

text \<open>
  \<open>str::parse\<close> at an unsigned type of \<open>w\<close> bits: an optional plus sign, at least one digit,
  and a value that fits.
\<close>

definition parse_uint :: "nat \<Rightarrow> string \<Rightarrow> nat option" where
  "parse_uint w s =
     (let d = (case s of c # cs \<Rightarrow> if c = CHR ''+'' then cs else s | [] \<Rightarrow> s) in
      if d = [] then None
      else (case digits_value 0 d of
              None \<Rightarrow> None
            | Some n \<Rightarrow> if n < 2 ^ w then Some n else None))"

fun show_nat :: "nat \<Rightarrow> string" where
  "show_nat n =
     (if n < 10 then [char_of (48 + n)] else show_nat (n div 10) @ [char_of (48 + n mod 10)])"

declare show_nat.simps [simp del]

lemma of_char_char_of_digit: "(d::nat) < 10 \<Longrightarrow> (of_char (char_of (48 + d)) :: nat) = 48 + d"
  by (simp add: of_char_of)

lemma digit_is_ascii_digit: "(d::nat) < 10 \<Longrightarrow> is_ascii_digit (char_of (48 + d))"
  by (simp add: is_ascii_digit_def of_char_of)

lemma digits_value_append:
  "digits_value acc (s @ t) = Option.bind (digits_value acc s) (\<lambda>v. digits_value v t)"
  by (induction s arbitrary: acc) auto

lemma digits_value_show_nat: "digits_value 0 (show_nat n) = Some n"
proof (induction n rule: show_nat.induct)
  case (1 n)
  show ?case
  proof (cases "n < 10")
    case True
    then show ?thesis
      by (subst show_nat.simps) (simp add: digit_is_ascii_digit of_char_char_of_digit)
  next
    case False
    have "n mod 10 < 10" by simp
    from False "1" have "digits_value 0 (show_nat (n div 10)) = Some (n div 10)" by simp
    with False show ?thesis
      using digit_is_ascii_digit [OF \<open>n mod 10 < 10\<close>] of_char_char_of_digit [OF \<open>n mod 10 < 10\<close>]
      by (subst show_nat.simps) (simp add: digits_value_append)
  qed
qed

lemma show_nat_digits: "c \<in> set (show_nat n) \<Longrightarrow> is_ascii_digit c"
proof (induction n rule: show_nat.induct)
  case (1 n)
  have "n mod 10 < 10" by simp
  from "1" show ?case
    by (subst (asm) show_nat.simps)
      (auto simp: digit_is_ascii_digit digit_is_ascii_digit [OF \<open>n mod 10 < 10\<close>] split: if_splits)
qed

lemma show_nat_nonempty [simp]: "show_nat n \<noteq> []"
  by (subst show_nat.simps) simp

lemma show_nat_inject [simp]: "show_nat m = show_nat n \<longleftrightarrow> m = n"
  by (metis digits_value_show_nat option.inject)

lemma parse_uint_show_nat: "n < 2 ^ w \<Longrightarrow> parse_uint w (show_nat n) = Some n"
proof -
  assume n: "n < 2 ^ w"
  obtain c cs where s: "show_nat n = c # cs"
    by (cases "show_nat n") auto
  then have "is_ascii_digit c"
    using show_nat_digits [of c n] by simp
  then have "c \<noteq> CHR ''+''"
    by (auto simp: is_ascii_digit_def)
  with s n show ?thesis
    using digits_value_show_nat [of n] by (simp add: parse_uint_def)
qed

lemma parse_uint_bound: "parse_uint w s = Some n \<Longrightarrow> n < 2 ^ w"
  by (auto simp: parse_uint_def Let_def split: if_splits option.splits list.splits)

subsection \<open>Joining and splitting\<close>

fun join_with :: "'a \<Rightarrow> 'a list list \<Rightarrow> 'a list" where
  "join_with c [] = []"
| "join_with c [x] = x"
| "join_with c (x # y # ys) = x @ c # join_with c (y # ys)"

lemma split_on_ne [simp]: "split_on c s \<noteq> []"
  by (induction s) (auto split: list.splits)

lemma split_on_no_sep: "c \<notin> set s \<Longrightarrow> split_on c s = [s]"
  by (induction s) auto

lemma split_on_append: "c \<notin> set a \<Longrightarrow> split_on c (a @ c # b) = a # split_on c b"
  by (induction a) auto

lemma split_on_join: "xs \<noteq> [] \<Longrightarrow> (\<And>x. x \<in> set xs \<Longrightarrow> c \<notin> set x) \<Longrightarrow> split_on c (join_with c xs) = xs"
  by (induction c xs rule: join_with.induct) (auto simp: split_on_no_sep split_on_append)

text \<open>A text that starts and ends with a visible ASCII character is its own trim.\<close>

definition visible :: "char \<Rightarrow> bool" where
  "visible c \<longleftrightarrow> 33 \<le> (of_char c :: nat) \<and> (of_char c :: nat) \<le> 126"

lemma white_space_invisible:
  "list_all (\<lambda>w. w \<noteq> [] \<and> \<not> visible (hd w) \<and> \<not> visible (last w)) white_space"
  by (simp add: white_space_def visible_def bytes_str_def)

lemma starts_with_hd: "starts_with s w \<Longrightarrow> w \<noteq> [] \<Longrightarrow> hd s = hd w"
  by (auto simp: starts_with_iff)

lemma trim_visible: "s \<noteq> [] \<Longrightarrow> visible (hd s) \<Longrightarrow> visible (last s) \<Longrightarrow> trim s = s"
proof -
  assume s: "s \<noteq> []" "visible (hd s)" "visible (last s)"
  have "strip_leading white_space s = s"
    by (rule strip_leading_done)
      (use s white_space_invisible in \<open>auto simp: list_all_iff dest: starts_with_hd\<close>)
  moreover have "strip_leading (map rev white_space) (rev s) = rev s"
    by (rule strip_leading_done)
      (use s white_space_invisible in \<open>auto simp: list_all_iff hd_rev dest!: starts_with_hd\<close>)
  ultimately show ?thesis by (simp add: trim_def trim_start_def trim_end_def)
qed

lemma strip_leading_Nil [simp]: "strip_leading ws [] = []"
  by (rule strip_leading_done) (auto simp: starts_with_def)

lemma trim_Nil [simp]: "trim [] = []"
  by (simp add: trim_def trim_start_def trim_end_def)

subsection \<open>ASCII case\<close>

definition ascii_lower :: "char \<Rightarrow> char" where
  "ascii_lower c = (let n = (of_char c :: nat) in if 65 \<le> n \<and> n \<le> 90 then char_of (n + 32) else c)"

definition to_ascii_lowercase :: "string \<Rightarrow> string" where
  "to_ascii_lowercase s = map ascii_lower s"

end
