(* ===== verification/Utf8.thy ===== *)
theory Utf8
  imports Rust_Str
begin

section \<open>UTF-8: \<open>core::str::from_utf8\<close> and \<open>String::from_utf8_lossy\<close>\<close>

text \<open>
  One step of the decoder of the Rust standard library: the length of the first character,
  or the length of the maximal invalid prefix that the lossy decoder replaces. A missing
  byte reads as zero, which is no continuation byte.
\<close>

definition is_cont :: "u8 \<Rightarrow> bool" where
  "is_cont b \<longleftrightarrow> 0x80 \<le> b \<and> b \<le> 0xBF"

definition byte_at :: "bytes \<Rightarrow> nat \<Rightarrow> u8" where
  "byte_at bs i = (if i < length bs then bs ! i else 0)"

definition second_ok :: "u8 \<Rightarrow> u8 \<Rightarrow> bool" where
  "second_ok b c \<longleftrightarrow>
     (if b = 0xE0 then 0xA0 \<le> c \<and> c \<le> 0xBF
      else if b = 0xED then 0x80 \<le> c \<and> c \<le> 0x9F
      else if b = 0xF0 then 0x90 \<le> c \<and> c \<le> 0xBF
      else if b = 0xF4 then 0x80 \<le> c \<and> c \<le> 0x8F
      else is_cont c)"

definition utf8_head :: "bytes \<Rightarrow> nat + nat" where
  "utf8_head bs =
     (let b = byte_at bs 0; c1 = byte_at bs 1; c2 = byte_at bs 2; c3 = byte_at bs 3 in
      if b < 0x80 then Inr 1
      else if 0xC2 \<le> b \<and> b \<le> 0xDF then (if is_cont c1 then Inr 2 else Inl 1)
      else if 0xE0 \<le> b \<and> b \<le> 0xEF then
        (if second_ok b c1 then (if is_cont c2 then Inr 3 else Inl 2) else Inl 1)
      else if 0xF0 \<le> b \<and> b \<le> 0xF4 then
        (if second_ok b c1
         then (if is_cont c2 then (if is_cont c3 then Inr 4 else Inl 3) else Inl 2)
         else Inl 1)
      else Inl 1)"

lemma utf8_head_pos: "utf8_head bs = Inr n \<Longrightarrow> 0 < n" "utf8_head bs = Inl n \<Longrightarrow> 0 < n"
  by (auto simp: utf8_head_def Let_def split: if_splits)

function utf8_valid :: "bytes \<Rightarrow> bool" where
  "utf8_valid bs =
     (if bs = [] then True
      else (case utf8_head bs of Inl n \<Rightarrow> False | Inr n \<Rightarrow> utf8_valid (drop n bs)))"
  by pat_completeness auto
termination
  by (relation "measure length") (auto dest: utf8_head_pos)

function lossy_bytes :: "bytes \<Rightarrow> bytes" where
  "lossy_bytes bs =
     (if bs = [] then []
      else (case utf8_head bs of
              Inl n \<Rightarrow> [0xEF, 0xBF, 0xBD] @ lossy_bytes (drop n bs)
            | Inr n \<Rightarrow> take n bs @ lossy_bytes (drop n bs)))"
  by pat_completeness auto
termination
  by (relation "measure length") (auto dest: utf8_head_pos)

declare utf8_valid.simps [simp del] lossy_bytes.simps [simp del]

definition from_utf8 :: "bytes \<Rightarrow> string option" where
  "from_utf8 bs = (if utf8_valid bs then Some (bytes_str bs) else None)"

definition from_utf8_lossy :: "bytes \<Rightarrow> string" where
  "from_utf8_lossy bs = bytes_str (lossy_bytes bs)"

lemma utf8_valid_Nil [simp]: "utf8_valid []"
  by (subst utf8_valid.simps) simp

lemma lossy_bytes_Nil [simp]: "lossy_bytes [] = []"
  by (subst lossy_bytes.simps) simp

lemma utf8_valid_ascii_Cons: "b < 0x80 \<Longrightarrow> utf8_valid (b # bs) = utf8_valid bs"
  by (subst utf8_valid.simps) (simp add: utf8_head_def byte_at_def)

lemma utf8_valid_ascii: "(\<And>b. b \<in> set bs \<Longrightarrow> b < 0x80) \<Longrightarrow> utf8_valid bs"
  by (induction bs) (auto simp: utf8_valid_ascii_Cons)

text \<open>A valid sequence survives the lossy decoder unchanged.\<close>

lemma lossy_bytes_valid: "utf8_valid bs \<Longrightarrow> lossy_bytes bs = bs"
proof (induction bs rule: utf8_valid.induct)
  case (1 bs)
  show ?case
  proof (cases "bs = []")
    case True
    then show ?thesis by simp
  next
    case False
    with "1.prems" obtain n where n: "utf8_head bs = Inr n" and v: "utf8_valid (drop n bs)"
      by (subst (asm) utf8_valid.simps) (auto split: sum.splits)
    from "1.IH" [OF False n v] have "lossy_bytes (drop n bs) = drop n bs" .
    with False n show ?thesis
      by (subst lossy_bytes.simps) simp
  qed
qed

lemma from_utf8_lossy_valid: "utf8_valid bs \<Longrightarrow> from_utf8_lossy bs = bytes_str bs"
  by (simp add: from_utf8_lossy_def lossy_bytes_valid)

lemma from_utf8_Some: "from_utf8 bs = Some s \<longleftrightarrow> utf8_valid bs \<and> s = bytes_str bs"
  by (auto simp: from_utf8_def)

text \<open>Slicing a \<open>str\<close> panics unless the index is a character boundary.\<close>

definition is_char_boundary :: "string \<Rightarrow> nat \<Rightarrow> bool" where
  "is_char_boundary s i \<longleftrightarrow>
     i = 0 \<or> i = length s \<or> (i < length s \<and> \<not> is_cont (of_char (s ! i)))"

text \<open>The characters of a \<open>str\<close> as code points: \<open>str::chars\<close> on valid UTF-8.\<close>

definition char_value :: "bytes \<Rightarrow> nat \<Rightarrow> nat" where
  "char_value bs n =
     (let b = unat (byte_at bs 0); c1 = unat (byte_at bs 1) mod 64; c2 = unat (byte_at bs 2) mod 64;
          c3 = unat (byte_at bs 3) mod 64 in
      if n = 1 then b
      else if n = 2 then (b mod 32) * 64 + c1
      else if n = 3 then ((b mod 16) * 64 + c1) * 64 + c2
      else (((b mod 8) * 64 + c1) * 64 + c2) * 64 + c3)"

function code_points :: "bytes \<Rightarrow> nat list" where
  "code_points bs =
     (if bs = [] then []
      else (case utf8_head bs of
              Inl n \<Rightarrow> []
            | Inr n \<Rightarrow> char_value bs n # code_points (drop n bs)))"
  by pat_completeness auto
termination
  by (relation "measure length") (auto dest: utf8_head_pos)

declare code_points.simps [simp del]

definition chars_of :: "string \<Rightarrow> nat list" where
  "chars_of s = code_points (str_bytes s)"

lemma code_points_Nil [simp]: "code_points [] = []"
  by (subst code_points.simps) simp

lemma code_points_ascii_Cons: "b < 0x80 \<Longrightarrow> code_points (b # bs) = unat b # code_points bs"
  by (subst code_points.simps) (simp add: utf8_head_def byte_at_def char_value_def)

lemma code_points_ascii: "(\<And>b. b \<in> set bs \<Longrightarrow> b < 0x80) \<Longrightarrow> code_points bs = map unat bs"
  by (induction bs) (auto simp: code_points_ascii_Cons)

end
