(* ===== verification/Common_Abi.thy ===== *)
theory Common_Abi
  imports Utf8
begin

section \<open>The shared ABI: \<open>packages/neuromesh-common/src/lib.rs\<close>\<close>

text \<open>
  The records the kernel programs and the agent exchange, the names and layouts of the BPF
  maps, and the deny-list entry with its constructor, matcher and legacy migration. Array
  fields are lists; \<open>wf_exec_event\<close> and \<open>wf_entry\<close> say that they have the length their Rust
  type fixes.
\<close>

subsection \<open>Constants\<close>

definition MAX_FILENAME_LEN :: nat where "MAX_FILENAME_LEN = 256"
definition MAX_COMM_LEN :: nat where "MAX_COMM_LEN = 16"
definition MAX_CONTAINER_ID_LEN :: nat where "MAX_CONTAINER_ID_LEN = 64"
definition MAX_ARGS_CAPTURE :: nat where "MAX_ARGS_CAPTURE = 8"
definition MAX_ARG_STR_LEN :: nat where "MAX_ARG_STR_LEN = 32"
definition MAX_ARGV_LEN :: nat where "MAX_ARGV_LEN = MAX_ARGS_CAPTURE * MAX_ARG_STR_LEN"
definition MAX_ENV_CAPTURE :: nat where "MAX_ENV_CAPTURE = 8"
definition MAX_ENV_STR_LEN :: nat where "MAX_ENV_STR_LEN = 32"
definition MAX_ENV_LEN :: nat where "MAX_ENV_LEN = MAX_ENV_CAPTURE * MAX_ENV_STR_LEN"
definition MAX_ENV_SCAN :: nat where "MAX_ENV_SCAN = 16"
definition EXEC_EVENT_SCHEMA_VERSION :: u16 where "EXEC_EVENT_SCHEMA_VERSION = 3"
definition EXEC_EVENT_TYPE_EXECVE :: u8 where "EXEC_EVENT_TYPE_EXECVE = 1"
definition EXEC_FLAG_SYSCALL_EXECVEAT :: u8 where "EXEC_FLAG_SYSCALL_EXECVEAT = push_bit 0 1"
definition EXEC_FLAG_PATH_FROM_FD :: u8 where "EXEC_FLAG_PATH_FROM_FD = push_bit 1 1"
definition EXEC_EVENT_STRUCT_SIZE :: u16 where "EXEC_EVENT_STRUCT_SIZE = 932"
definition ENFORCEMENT_ALLOWED :: u8 where "ENFORCEMENT_ALLOWED = 0"
definition ENFORCEMENT_BLOCKED :: u8 where "ENFORCEMENT_BLOCKED = 1"
definition ENFORCEMENT_UNKNOWN :: u8 where "ENFORCEMENT_UNKNOWN = 2"
definition CAPTURE_PID :: u16 where "CAPTURE_PID = push_bit 0 1"
definition CAPTURE_PPID :: u16 where "CAPTURE_PPID = push_bit 1 1"
definition CAPTURE_TGID :: u16 where "CAPTURE_TGID = push_bit 2 1"
definition CAPTURE_UID :: u16 where "CAPTURE_UID = push_bit 3 1"
definition CAPTURE_EUID :: u16 where "CAPTURE_EUID = push_bit 4 1"
definition CAPTURE_GID :: u16 where "CAPTURE_GID = push_bit 5 1"
definition CAPTURE_COMM :: u16 where "CAPTURE_COMM = push_bit 6 1"
definition CAPTURE_FILENAME :: u16 where "CAPTURE_FILENAME = push_bit 7 1"
definition CAPTURE_ARGS_COUNT :: u16 where "CAPTURE_ARGS_COUNT = push_bit 8 1"
definition CAPTURE_CONTAINER_ID :: u16 where "CAPTURE_CONTAINER_ID = push_bit 9 1"
definition CAPTURE_NAMESPACE_ID :: u16 where "CAPTURE_NAMESPACE_ID = push_bit 10 1"
definition CAPTURE_TIMESTAMP :: u16 where "CAPTURE_TIMESTAMP = push_bit 11 1"
definition CAPTURE_ARGV :: u16 where "CAPTURE_ARGV = push_bit 12 1"
definition CAPTURE_ENV :: u16 where "CAPTURE_ENV = push_bit 13 1"
definition UNKNOWN_SENTINEL :: bytes where "UNKNOWN_SENTINEL = str_bytes ''UNKNOWN''"
definition ARGV_FLAG_ARGC_TRUNCATED :: u8 where "ARGV_FLAG_ARGC_TRUNCATED = push_bit 0 1"
definition ARGV_FLAG_PROBE_FAULT :: u8 where "ARGV_FLAG_PROBE_FAULT = push_bit 1 1"
definition ENV_FLAG_COUNT_TRUNCATED :: u8 where "ENV_FLAG_COUNT_TRUNCATED = push_bit 0 1"
definition ENV_FLAG_PROBE_FAULT :: u8 where "ENV_FLAG_PROBE_FAULT = push_bit 1 1"
definition ENV_FLAG_SLOTS_FULL :: u8 where "ENV_FLAG_SLOTS_FULL = push_bit 2 1"
definition PATH_DENY_MAX_ENTRIES :: nat where "PATH_DENY_MAX_ENTRIES = 64"
definition PATH_DENY_KEY_BYTES :: nat where "PATH_DENY_KEY_BYTES = 32"
definition PATH_DENY_KEY_BYTES_LEGACY :: nat where "PATH_DENY_KEY_BYTES_LEGACY = 16"
definition PATH_DENY_ENTRY_SIZE :: nat where "PATH_DENY_ENTRY_SIZE = 4 + PATH_DENY_KEY_BYTES"
definition PATH_DENY_ENTRY_SIZE_LEGACY :: nat where
  "PATH_DENY_ENTRY_SIZE_LEGACY = 4 + PATH_DENY_KEY_BYTES_LEGACY"
definition BPF_MAP_TYPE_ARRAY :: u32 where "BPF_MAP_TYPE_ARRAY = 2"
definition BPF_MAP_TYPE_PERCPU_ARRAY :: u32 where "BPF_MAP_TYPE_PERCPU_ARRAY = 6"
definition BPF_MAP_TYPE_RINGBUF :: u32 where "BPF_MAP_TYPE_RINGBUF = 27"
definition BPF_OBJ_NAME_MAX :: nat where "BPF_OBJ_NAME_MAX = 15"
definition IDENTITY_ALLOW_CGROUPS_MAX_ENTRIES :: nat where
  "IDENTITY_ALLOW_CGROUPS_MAX_ENTRIES = 16384"
definition IDENTITY_ALLOW_VALUE :: u8 where "IDENTITY_ALLOW_VALUE = 1"
definition IDENTITY_EXCEPTIONS_VALID_FRESH :: u8 where "IDENTITY_EXCEPTIONS_VALID_FRESH = 1"
definition IDENTITY_EXCEPTIONS_VALID_STALE :: u8 where "IDENTITY_EXCEPTIONS_VALID_STALE = 0"
definition IDENTITY_EXCEPTION_SCOPE_PREFIX :: bytes where
  "IDENTITY_EXCEPTION_SCOPE_PREFIX = str_bytes ''/tmp/''"

lemmas common_consts [abi_consts] =
  MAX_FILENAME_LEN_def MAX_COMM_LEN_def MAX_CONTAINER_ID_LEN_def MAX_ARGS_CAPTURE_def
  MAX_ARG_STR_LEN_def MAX_ARGV_LEN_def MAX_ENV_CAPTURE_def MAX_ENV_STR_LEN_def MAX_ENV_LEN_def
  MAX_ENV_SCAN_def EXEC_EVENT_SCHEMA_VERSION_def EXEC_EVENT_TYPE_EXECVE_def
  EXEC_EVENT_STRUCT_SIZE_def PATH_DENY_MAX_ENTRIES_def PATH_DENY_KEY_BYTES_def
  PATH_DENY_KEY_BYTES_LEGACY_def PATH_DENY_ENTRY_SIZE_def PATH_DENY_ENTRY_SIZE_LEGACY_def
  IDENTITY_ALLOW_CGROUPS_MAX_ENTRIES_def IDENTITY_ALLOW_VALUE_def
  IDENTITY_EXCEPTIONS_VALID_FRESH_def IDENTITY_EXCEPTIONS_VALID_STALE_def

lemmas capture_bits =
  CAPTURE_PID_def CAPTURE_PPID_def CAPTURE_TGID_def CAPTURE_UID_def CAPTURE_EUID_def
  CAPTURE_GID_def CAPTURE_COMM_def CAPTURE_FILENAME_def CAPTURE_ARGS_COUNT_def
  CAPTURE_CONTAINER_ID_def CAPTURE_NAMESPACE_ID_def CAPTURE_TIMESTAMP_def CAPTURE_ARGV_def
  CAPTURE_ENV_def

subsection \<open>Names of BPF objects and the pinned-map table\<close>

definition bpf_obj_name :: "string \<Rightarrow> string option" where
  "bpf_obj_name name = (if length name \<le> BPF_OBJ_NAME_MAX then Some name else None)"

definition PATH_DENY_LIST_MAP :: string where "PATH_DENY_LIST_MAP = ''PATH_DENY_LIST''"
definition PATH_DENY_COUNT_MAP :: string where "PATH_DENY_COUNT_MAP = ''PATH_DENY_COUNT''"
definition IDENTITY_ALLOW_CGROUPS_MAP :: string where
  "IDENTITY_ALLOW_CGROUPS_MAP = ''ID_ALLOW_CGROUP''"
definition IDENTITY_EXCEPTIONS_VALID_MAP :: string where
  "IDENTITY_EXCEPTIONS_VALID_MAP = ''ID_EXCEPT_VALID''"
definition PROCESS_EVENTS_MAP :: string where "PROCESS_EVENTS_MAP = ''PROCESS_EVENTS''"
definition RATE_LIMIT_BUCKET_MAP :: string where "RATE_LIMIT_BUCKET_MAP = ''RLIMIT_BUCKET''"
definition RATE_LIMIT_DROPS_MAP :: string where "RATE_LIMIT_DROPS_MAP = ''RLIMIT_DROPS''"
definition CAPTURE_FAILURES_MAP :: string where "CAPTURE_FAILURES_MAP = ''CAPTURE_FAILS''"
definition NETWORK_EVENTS_MAP :: string where "NETWORK_EVENTS_MAP = ''NETWORK_EVENTS''"
definition DROPPED_EVENTS_MAP :: string where "DROPPED_EVENTS_MAP = ''DROPPED_EVENTS''"
definition TELEMETRY_RINGBUF_MAP :: string where "TELEMETRY_RINGBUF_MAP = ''TELEM_RINGBUF''"
definition TELEMETRY_STATS_MAP :: string where "TELEMETRY_STATS_MAP = ''TELEMETRY_STATS''"
definition LSM_EXEC_GUARD_PROG :: string where "LSM_EXEC_GUARD_PROG = ''nm_lsm_bprm''"
definition PROCESS_EVENTS_PROG :: string where "PROCESS_EVENTS_PROG = ''nm_proc_events''"
definition PROCESS_EVENTS_AT_PROG :: string where "PROCESS_EVENTS_AT_PROG = ''nm_execveat''"
definition TCP_CONNECT_PROG :: string where "TCP_CONNECT_PROG = ''nm_tcp_connect''"

lemmas bpf_object_names =
  PATH_DENY_LIST_MAP_def PATH_DENY_COUNT_MAP_def IDENTITY_ALLOW_CGROUPS_MAP_def
  IDENTITY_EXCEPTIONS_VALID_MAP_def PROCESS_EVENTS_MAP_def RATE_LIMIT_BUCKET_MAP_def
  RATE_LIMIT_DROPS_MAP_def CAPTURE_FAILURES_MAP_def NETWORK_EVENTS_MAP_def
  DROPPED_EVENTS_MAP_def TELEMETRY_RINGBUF_MAP_def TELEMETRY_STATS_MAP_def
  LSM_EXEC_GUARD_PROG_def PROCESS_EVENTS_PROG_def PROCESS_EVENTS_AT_PROG_def
  TCP_CONNECT_PROG_def

definition ALL_BPF_OBJECT_NAMES :: "string list" where
  "ALL_BPF_OBJECT_NAMES =
     [PATH_DENY_LIST_MAP, PATH_DENY_COUNT_MAP, IDENTITY_ALLOW_CGROUPS_MAP,
      IDENTITY_EXCEPTIONS_VALID_MAP, PROCESS_EVENTS_MAP, RATE_LIMIT_BUCKET_MAP,
      RATE_LIMIT_DROPS_MAP, CAPTURE_FAILURES_MAP, NETWORK_EVENTS_MAP, DROPPED_EVENTS_MAP,
      TELEMETRY_RINGBUF_MAP, TELEMETRY_STATS_MAP, LSM_EXEC_GUARD_PROG, PROCESS_EVENTS_PROG,
      PROCESS_EVENTS_AT_PROG, TCP_CONNECT_PROG]"

record PinnedMapAbi =
  pma_name :: string
  pma_map_type :: u32
  pma_key_size :: u32
  pma_value_size :: u32
  pma_max_entries :: u32

definition PINNED_MAP_ABI :: "PinnedMapAbi list" where
  "PINNED_MAP_ABI =
     [\<lparr>pma_name = PATH_DENY_LIST_MAP, pma_map_type = BPF_MAP_TYPE_ARRAY, pma_key_size = 4,
       pma_value_size = of_nat PATH_DENY_ENTRY_SIZE,
       pma_max_entries = of_nat PATH_DENY_MAX_ENTRIES\<rparr>,
      \<lparr>pma_name = PATH_DENY_COUNT_MAP, pma_map_type = BPF_MAP_TYPE_ARRAY, pma_key_size = 4,
       pma_value_size = 4, pma_max_entries = 1\<rparr>,
      \<lparr>pma_name = PROCESS_EVENTS_MAP, pma_map_type = BPF_MAP_TYPE_RINGBUF, pma_key_size = 0,
       pma_value_size = 0, pma_max_entries = 1024 * 1024\<rparr>,
      \<lparr>pma_name = RATE_LIMIT_BUCKET_MAP, pma_map_type = BPF_MAP_TYPE_PERCPU_ARRAY,
       pma_key_size = 4, pma_value_size = 16, pma_max_entries = 1\<rparr>]"

subsection \<open>Telemetry records\<close>

record ExecEvent =
  ee_schema_version :: u16
  ee_event_type :: u8
  ee_flags :: u8
  ee_struct_size :: u16
  ee_header_reserved :: u16
  ee_header_pad :: bytes
  ee_pid :: u32
  ee_ppid :: u32
  ee_tgid :: u32
  ee_uid :: u32
  ee_euid :: u32
  ee_gid :: u32
  ee_comm :: bytes
  ee_filename :: bytes
  ee_args_count :: u32
  ee_argv_len :: u16
  ee_argv_trunc_mask :: u8
  ee_argv_flags :: u8
  ee_argv :: bytes
  ee_env_len :: u16
  ee_env_trunc_mask :: u8
  ee_env_flags :: u8
  ee_env_ptr_count :: u16
  ee_env_header_pad :: u16
  ee_env :: bytes
  ee_container_id :: bytes
  ee_align_pad :: bytes
  ee_namespace_id :: u64
  ee_timestamp_ns :: u64
  ee_enforcement_action :: u8
  ee_capture_status :: u16
  ee_status_reserved :: bytes

definition wf_exec_event :: "ExecEvent \<Rightarrow> bool" where
  "wf_exec_event e \<longleftrightarrow>
     length (ee_header_pad e) = 8 \<and> length (ee_comm e) = MAX_COMM_LEN \<and>
     length (ee_filename e) = MAX_FILENAME_LEN \<and> length (ee_argv e) = MAX_ARGV_LEN \<and>
     length (ee_env e) = MAX_ENV_LEN \<and> length (ee_container_id e) = MAX_CONTAINER_ID_LEN \<and>
     length (ee_align_pad e) = 4 \<and> length (ee_status_reserved e) = 5"

definition exec_event_default :: ExecEvent where
  "exec_event_default =
     \<lparr>ee_schema_version = EXEC_EVENT_SCHEMA_VERSION, ee_event_type = EXEC_EVENT_TYPE_EXECVE,
      ee_flags = 0, ee_struct_size = EXEC_EVENT_STRUCT_SIZE, ee_header_reserved = 0,
      ee_header_pad = replicate 8 0, ee_pid = 0, ee_ppid = 0, ee_tgid = 0, ee_uid = 0,
      ee_euid = 0, ee_gid = 0, ee_comm = replicate MAX_COMM_LEN 0,
      ee_filename = replicate MAX_FILENAME_LEN 0, ee_args_count = 0, ee_argv_len = 0,
      ee_argv_trunc_mask = 0, ee_argv_flags = 0, ee_argv = replicate MAX_ARGV_LEN 0,
      ee_env_len = 0, ee_env_trunc_mask = 0, ee_env_flags = 0, ee_env_ptr_count = 0,
      ee_env_header_pad = 0, ee_env = replicate MAX_ENV_LEN 0,
      ee_container_id = replicate MAX_CONTAINER_ID_LEN 0, ee_align_pad = replicate 4 0,
      ee_namespace_id = 0, ee_timestamp_ns = 0, ee_enforcement_action = ENFORCEMENT_ALLOWED,
      ee_capture_status = 0, ee_status_reserved = replicate 5 0\<rparr>"

definition is_valid :: "ExecEvent \<Rightarrow> bool" where
  "is_valid e \<longleftrightarrow>
     ee_schema_version e = EXEC_EVENT_SCHEMA_VERSION \<and>
     ee_event_type e = EXEC_EVENT_TYPE_EXECVE \<and> ee_struct_size e = EXEC_EVENT_STRUCT_SIZE"

definition field_unknown :: "ExecEvent \<Rightarrow> u16 \<Rightarrow> bool" where
  "field_unknown e field \<longleftrightarrow> ee_capture_status e AND field \<noteq> 0"

definition is_execveat :: "ExecEvent \<Rightarrow> bool" where
  "is_execveat e \<longleftrightarrow> ee_flags e AND EXEC_FLAG_SYSCALL_EXECVEAT \<noteq> 0"

definition path_from_fd :: "ExecEvent \<Rightarrow> bool" where
  "path_from_fd e \<longleftrightarrow> ee_flags e AND EXEC_FLAG_PATH_FROM_FD \<noteq> 0"

record SecurityTelemetryEvent =
  st_pid :: u32
  st_ppid :: u32
  st_ppid_unresolved :: bool
  st_uid :: u32
  st_euid :: u32
  st_comm :: bytes
  st_filename :: bytes
  st_argv_len :: u16
  st_argv_truncated :: bool
  st_argv_trunc_mask :: u8
  st_argv :: bytes
  st_env_len :: u16
  st_env_truncated :: bool
  st_env_trunc_mask :: u8
  st_env_redacted :: bool
  st_env :: bytes

definition security_telemetry_default :: SecurityTelemetryEvent where
  "security_telemetry_default =
     \<lparr>st_pid = 0, st_ppid = 0, st_ppid_unresolved = False, st_uid = 0, st_euid = 0,
      st_comm = replicate MAX_COMM_LEN 0, st_filename = replicate MAX_FILENAME_LEN 0,
      st_argv_len = 0, st_argv_truncated = False, st_argv_trunc_mask = 0,
      st_argv = replicate MAX_ARGV_LEN 0, st_env_len = 0, st_env_truncated = False,
      st_env_trunc_mask = 0, st_env_redacted = False, st_env = replicate MAX_ENV_LEN 0\<rparr>"

record TelemetryHealthStats =
  events_processed :: u64
  lost_events_count :: u64

lemma wf_exec_event_default [simp]: "wf_exec_event exec_event_default"
  by (simp add: wf_exec_event_def exec_event_default_def)

lemma is_valid_default [simp]: "is_valid exec_event_default"
  by (simp add: is_valid_def exec_event_default_def)

subsection \<open>Deny-list entries\<close>

definition BOOTSTRAP_PATH_DENY_PREFIXES :: "bytes list" where
  "BOOTSTRAP_PATH_DENY_PREFIXES =
     [str_bytes ''/tmp/'', str_bytes ''/dev/shm/'', str_bytes ''/var/tmp/'']"

record PathDenyEntry =
  pd_len :: u32
  pd_bytes :: bytes

record LegacyPathDenyEntry =
  lpd_len :: u32
  lpd_bytes :: bytes

definition path_deny_entry_default :: PathDenyEntry where
  "path_deny_entry_default = \<lparr>pd_len = 0, pd_bytes = replicate PATH_DENY_KEY_BYTES 0\<rparr>"

definition from_prefix :: "bytes \<Rightarrow> PathDenyEntry option" where
  "from_prefix pre =
     (if pre = [] \<or> PATH_DENY_KEY_BYTES < length pre then None
      else Some \<lparr>pd_len = of_nat (length pre),
                 pd_bytes = copy_at 0 pre (replicate PATH_DENY_KEY_BYTES 0)\<rparr>)"

definition entry_matches :: "PathDenyEntry \<Rightarrow> bytes \<Rightarrow> bool" where
  "entry_matches e path =
     (let len = unat (pd_len e) in
      if len = 0 \<or> PATH_DENY_KEY_BYTES < len \<or> length path < len then False
      else list_all (\<lambda>(a, b). a = b) (zip (take len path) (take len (pd_bytes e))))"

definition widen :: "LegacyPathDenyEntry \<Rightarrow> PathDenyEntry option" where
  "widen e =
     (let len = unat (lpd_len e) in
      if len = 0 \<or> PATH_DENY_KEY_BYTES_LEGACY < len then None
      else from_prefix (take len (lpd_bytes e)))"

text \<open>
  An entry is well formed when its bytes have their array's length and its length field
  names at least one and at most all of them.
\<close>

definition wf_entry :: "PathDenyEntry \<Rightarrow> bool" where
  "wf_entry e \<longleftrightarrow>
     length (pd_bytes e) = PATH_DENY_KEY_BYTES \<and> 0 < unat (pd_len e) \<and>
     unat (pd_len e) \<le> PATH_DENY_KEY_BYTES"

definition entry_prefix :: "PathDenyEntry \<Rightarrow> bytes" where
  "entry_prefix e = take (unat (pd_len e)) (pd_bytes e)"

lemma list_all_zip_eq:
  "length xs = length ys \<Longrightarrow> list_all (\<lambda>(a, b). a = b) (zip xs ys) \<longleftrightarrow> xs = ys"
  by (induction xs ys rule: list_induct2) auto

lemma unat_of_nat_small: "n \<le> PATH_DENY_KEY_BYTES \<Longrightarrow> unat (of_nat n :: u32) = n"
  by (simp add: PATH_DENY_KEY_BYTES_def unat_of_nat)

lemma entry_matches_iff:
  "wf_entry e \<Longrightarrow> entry_matches e path \<longleftrightarrow> starts_with path (entry_prefix e)"
proof -
  assume wf: "wf_entry e"
  let ?n = "unat (pd_len e)"
  have len: "length (entry_prefix e) = ?n"
    using wf by (simp add: wf_entry_def entry_prefix_def)
  show ?thesis
  proof (cases "length path < ?n")
    case True
    with len show ?thesis
      by (auto simp: entry_matches_def dest: starts_with_length)
  next
    case False
    with wf len show ?thesis
      by (simp add: entry_matches_def wf_entry_def starts_with_def list_all_zip_eq)
        (auto simp: entry_prefix_def Let_def)
  qed
qed

lemma default_never_matches [simp]: "\<not> entry_matches path_deny_entry_default path"
  by (simp add: entry_matches_def path_deny_entry_default_def)

lemma from_prefix_Some:
  "from_prefix p = Some e \<longleftrightarrow>
     p \<noteq> [] \<and> length p \<le> PATH_DENY_KEY_BYTES \<and>
     e = \<lparr>pd_len = of_nat (length p),
          pd_bytes = p @ replicate (PATH_DENY_KEY_BYTES - length p) 0\<rparr>"
  by (auto simp: from_prefix_def copy_at_0_replicate)

lemma from_prefix_wf: "from_prefix p = Some e \<Longrightarrow> wf_entry e \<and> entry_prefix e = p"
  by (auto simp: from_prefix_Some wf_entry_def entry_prefix_def unat_of_nat_small)

lemma from_prefix_None: "from_prefix p = None \<longleftrightarrow> p = [] \<or> PATH_DENY_KEY_BYTES < length p"
  by (simp add: from_prefix_def)

lemma from_prefix_matches:
  "from_prefix p = Some e \<Longrightarrow> entry_matches e path \<longleftrightarrow> starts_with path p"
  using from_prefix_wf [of p e] entry_matches_iff [of e path] by simp

definition wf_legacy :: "LegacyPathDenyEntry \<Rightarrow> bool" where
  "wf_legacy e \<longleftrightarrow> length (lpd_bytes e) = PATH_DENY_KEY_BYTES_LEGACY"

lemma widen_Some_iff:
  "wf_legacy l \<Longrightarrow>
   widen l = Some e \<longleftrightarrow>
     0 < unat (lpd_len l) \<and> unat (lpd_len l) \<le> PATH_DENY_KEY_BYTES_LEGACY \<and>
     from_prefix (take (unat (lpd_len l)) (lpd_bytes l)) = Some e"
  by (auto simp: widen_def Let_def)

lemma widen_total:
  "wf_legacy l \<Longrightarrow> 0 < unat (lpd_len l) \<Longrightarrow> unat (lpd_len l) \<le> PATH_DENY_KEY_BYTES_LEGACY \<Longrightarrow>
   \<exists>e. widen l = Some e"
  by (auto simp: widen_def from_prefix_def wf_legacy_def Let_def abi_consts)

end
