(* ===== verification/Side_Table.thy ===== *)
theory Side_Table
  imports Rust_Str Common_Abi "HOL-Library.AList"
begin

section \<open>The side table: \<open>identity_correlator/{side_table,allowlist,invalidate}.rs\<close>\<close>

text \<open>
  The index the correlator keeps beside the BPF map of excepted cgroups: one row per cgroup
  id, with a reverse index by pod and one by path. A path is the list of its components. A
  \<open>HashMap\<close> that is iterated is an association list with distinct keys, its order standing
  for the iteration order; no statement below depends on that order.
\<close>

type_synonym path = "string list"

record SideEntry =
  se_pod_uid :: string
  se_namespace :: string
  se_service_account :: string
  se_spiffe_id :: string
  se_cgroup_path :: path
  se_inode :: u64

datatype InsertOutcome = Inserted | Replaced | RejectedFull

record SideTable =
  by_cgroup :: "(u64 \<times> SideEntry) list"
  by_pod :: "string \<Rightarrow> u64 list option"
  by_path :: "path \<Rightarrow> u64 option"

definition side_table_new :: SideTable where
  "side_table_new = \<lparr>by_cgroup = [], by_pod = (\<lambda>_. None), by_path = (\<lambda>_. None)\<rparr>"

abbreviation rows :: "SideTable \<Rightarrow> u64 \<Rightarrow> SideEntry option" where
  "rows t \<equiv> map_of (by_cgroup t)"

definition unlink_indexes :: "u64 \<Rightarrow> SideEntry \<Rightarrow> SideTable \<Rightarrow> SideTable" where
  "unlink_indexes cg e t =
     (let t = t\<lparr>by_path := (by_path t)(se_cgroup_path e := None)\<rparr> in
      if se_pod_uid e = [] then t
      else (case by_pod t (se_pod_uid e) of
              None \<Rightarrow> t
            | Some ids \<Rightarrow>
                (let ids = removeAll cg ids in
                 t\<lparr>by_pod := (by_pod t)(se_pod_uid e := (if ids = [] then None else Some ids))\<rparr>)))"

definition table_full :: "SideTable \<Rightarrow> bool" where
  "table_full t \<longleftrightarrow> IDENTITY_ALLOW_CGROUPS_MAX_ENTRIES \<le> unat (of_nat (length (by_cgroup t)) :: u32)"

definition link_entry :: "u64 \<Rightarrow> SideEntry \<Rightarrow> SideTable \<Rightarrow> SideTable" where
  "link_entry cg e t =
     (let t = (if se_pod_uid e = [] then t
               else t\<lparr>by_pod := (by_pod t)(se_pod_uid e \<mapsto>
                        List.insert cg (case by_pod t (se_pod_uid e) of None \<Rightarrow> [] | Some ids \<Rightarrow> ids))\<rparr>)
      in t\<lparr>by_path := (by_path t)(se_cgroup_path e \<mapsto> cg), by_cgroup := AList.update cg e (by_cgroup t)\<rparr>)"

definition insert_row :: "u64 \<Rightarrow> SideEntry \<Rightarrow> SideTable \<Rightarrow> InsertOutcome \<times> SideTable" where
  "insert_row cg e t =
     (if rows t cg = None \<and> table_full t then (RejectedFull, t)
      else
        (let outcome = (if rows t cg = None then Inserted else Replaced);
             t = (case rows t cg of
                    None \<Rightarrow> t
                  | Some old \<Rightarrow> unlink_indexes cg old (t\<lparr>by_cgroup := AList.delete cg (by_cgroup t)\<rparr>))
         in (outcome, link_entry cg e t)))"

definition remove_by_cgroup :: "u64 \<Rightarrow> SideTable \<Rightarrow> SideEntry option \<times> SideTable" where
  "remove_by_cgroup cg t =
     (case rows t cg of
        None \<Rightarrow> (None, t)
      | Some e \<Rightarrow> (Some e, unlink_indexes cg e (t\<lparr>by_cgroup := AList.delete cg (by_cgroup t)\<rparr>)))"

fun drain_pod :: "u64 list \<Rightarrow> SideTable \<Rightarrow> (u64 \<times> SideEntry) list \<times> SideTable" where
  "drain_pod [] t = ([], t)"
| "drain_pod (i # is) t =
     (case rows t i of
        None \<Rightarrow> drain_pod is t
      | Some e \<Rightarrow>
          (let (out, t') = drain_pod is
                 (t\<lparr>by_cgroup := AList.delete i (by_cgroup t), by_path := (by_path t)(se_cgroup_path e := None)\<rparr>)
           in ((i, e) # out, t')))"

definition remove_by_pod :: "string \<Rightarrow> SideTable \<Rightarrow> (u64 \<times> SideEntry) list \<times> SideTable" where
  "remove_by_pod uid t =
     (case by_pod t uid of
        None \<Rightarrow> ([], t)
      | Some ids \<Rightarrow> drain_pod ids (t\<lparr>by_pod := (by_pod t)(uid := None)\<rparr>))"

definition plan_pe_allowlist_revoke :: "string set \<Rightarrow> SideTable \<Rightarrow> u64 list" where
  "plan_pe_allowlist_revoke allowed t =
     map fst (filter (\<lambda>(_, e). se_spiffe_id e \<noteq> [] \<and> se_spiffe_id e \<notin> allowed) (by_cgroup t))"

definition cgroup_id_for_path :: "path \<Rightarrow> SideTable \<Rightarrow> u64 option" where
  "cgroup_id_for_path p t = by_path t p"

definition clear_table :: "SideTable \<Rightarrow> (u64 \<times> SideEntry) list \<times> SideTable" where
  "clear_table t = (by_cgroup t, side_table_new)"

text \<open>The loops that remove planned ids one by one and report the rows they found.\<close>

fun remove_ids ::
  "('k \<Rightarrow> 't \<Rightarrow> 'e option \<times> 't) \<Rightarrow> 'k list \<Rightarrow> 't \<Rightarrow> ('k \<times> 'e) list \<times> 't" where
  "remove_ids rm [] t = ([], t)"
| "remove_ids rm (i # is) t =
     (case rm i t of
        (None, t') \<Rightarrow> remove_ids rm is t'
      | (Some e, t') \<Rightarrow> (let (out, t'') = remove_ids rm is t' in ((i, e) # out, t'')))"

definition sweep_missing_paths :: "(path \<Rightarrow> bool) \<Rightarrow> SideTable \<Rightarrow> (u64 \<times> SideEntry) list \<times> SideTable" where
  "sweep_missing_paths exists t =
     remove_ids remove_by_cgroup
       (map fst (filter (\<lambda>(_, e). \<not> exists (se_cgroup_path e)) (by_cgroup t))) t"

subsection \<open>Plans: \<open>invalidate.rs\<close>\<close>

datatype InvalidationReason = PodDelete | CgroupTeardown | ResyncSweep | PeAllowlistRevoke

datatype ResyncReason = InotifyOverflow | Startup | WatchError

definition plan_pod_delete :: "string \<Rightarrow> SideTable \<Rightarrow> u64 list \<times> SideTable" where
  "plan_pod_delete uid t = (let (removed, t') = remove_by_pod uid t in (map fst removed, t'))"

definition plan_teardown :: "u64 \<Rightarrow> SideTable \<Rightarrow> u64 option \<times> SideTable" where
  "plan_teardown cg t = (let (e, t') = remove_by_cgroup cg t in (map_option (\<lambda>_. cg) e, t'))"

definition plan_missing_path_sweep :: "(path \<Rightarrow> bool) \<Rightarrow> SideTable \<Rightarrow> u64 list \<times> SideTable" where
  "plan_missing_path_sweep exists t =
     (let (removed, t') = sweep_missing_paths exists t in (map fst removed, t'))"

subsection \<open>The cache of allowed identities: \<open>allowlist.rs\<close>\<close>

type_synonym PeAllowlistCache = "string set"

definition allowlist_replace :: "string list \<Rightarrow> PeAllowlistCache" where
  "allowlist_replace ids = set ids"

definition allowlist_clear :: PeAllowlistCache where
  "allowlist_clear = {}"

definition allowlist_contains :: "string \<Rightarrow> PeAllowlistCache \<Rightarrow> bool" where
  "allowlist_contains spiffe allow \<longleftrightarrow> spiffe \<in> allow"

subsection \<open>The invariant\<close>

text \<open>
  Keys are distinct and at most as many as the BPF map holds; the pod index lists for each
  non-empty pod uid exactly the rows of that pod; and a path entry names a row with that
  path.
\<close>

definition pod_ids :: "SideTable \<Rightarrow> string \<Rightarrow> u64 set" where
  "pod_ids t uid = (case by_pod t uid of None \<Rightarrow> {} | Some ids \<Rightarrow> set ids)"

definition side_inv :: "SideTable \<Rightarrow> bool" where
  "side_inv t \<longleftrightarrow>
     distinct (map fst (by_cgroup t)) \<and> length (by_cgroup t) \<le> IDENTITY_ALLOW_CGROUPS_MAX_ENTRIES \<and>
     (\<forall>uid. by_pod t uid \<noteq> Some []) \<and>
     (\<forall>uid cg. cg \<in> pod_ids t uid \<longleftrightarrow> uid \<noteq> [] \<and> (\<exists>e. rows t cg = Some e \<and> se_pod_uid e = uid)) \<and>
     (\<forall>p cg. by_path t p = Some cg \<longrightarrow> (\<exists>e. rows t cg = Some e \<and> se_cgroup_path e = p))"

text \<open>Every row can be found by its path.\<close>

definition paths_indexed :: "SideTable \<Rightarrow> bool" where
  "paths_indexed t \<longleftrightarrow> (\<forall>cg e. rows t cg = Some e \<longrightarrow> by_path t (se_cgroup_path e) = Some cg)"

subsection \<open>Removing planned ids\<close>

text \<open>
  A table of rows under keys, as the invalidation loops use it: removing a key returns its
  row, forgets it and nothing else, and keeps the invariant.
\<close>

locale keyed_table =
  fixes lookup :: "'t \<Rightarrow> 'k \<Rightarrow> 'e option"
    and remove :: "'k \<Rightarrow> 't \<Rightarrow> 'e option \<times> 't"
    and invar :: "'t \<Rightarrow> bool"
  assumes remove_fst: "invar t \<Longrightarrow> fst (remove x t) = lookup t x"
    and remove_lookup: "invar t \<Longrightarrow> lookup (snd (remove x t)) = (lookup t)(x := None)"
    and remove_invar: "invar t \<Longrightarrow> invar (snd (remove x t))"
begin

lemma remove_ids_spec:
  "invar t \<Longrightarrow>
   invar (snd (remove_ids remove ids t)) \<and>
   lookup (snd (remove_ids remove ids t)) = lookup t |` (- set ids) \<and>
   set (fst (remove_ids remove ids t)) = {(i, e). i \<in> set ids \<and> lookup t i = Some e}"
proof (induction ids arbitrary: t)
  case (Cons i ids)
  obtain t' where r: "remove i t = (lookup t i, t')"
    using remove_fst [OF Cons.prems, of i] by (metis prod.collapse)
  have t': "lookup t' = (lookup t)(i := None)" "invar t'"
    using Cons.prems r remove_lookup [of t i] remove_invar [of t i] by auto
  obtain out t'' where rest: "remove_ids remove ids t' = (out, t'')" by fastforce
  with r have step: "remove_ids remove (i # ids) t =
      (case lookup t i of None \<Rightarrow> (out, t'') | Some e \<Rightarrow> ((i, e) # out, t''))"
    by (simp split: option.split)
  from Cons.IH [OF t'(2)] rest t'(1) show ?case
    unfolding step
    by (cases "lookup t i") (auto simp: restrict_map_def fun_eq_iff split: if_splits)
qed (auto simp: restrict_map_def)

lemmas remove_ids_invar = remove_ids_spec [THEN conjunct1]
lemmas remove_ids_lookup = remove_ids_spec [THEN conjunct2, THEN conjunct1]
lemmas remove_ids_removed = remove_ids_spec [THEN conjunct2, THEN conjunct2]

end

subsection \<open>Every operation keeps the invariant\<close>

declare map_of_eq_Some_iff [simp del]

lemma rows_delete [simp]: "map_of (AList.delete cg al) = (map_of al)(cg := None)"
  by (rule delete_conv')

lemma rows_update [simp]: "map_of (AList.update cg e al) = (map_of al)(cg \<mapsto> e)"
  by (rule update_conv')

lemma by_cgroup_unlink [simp]: "by_cgroup (unlink_indexes cg e t) = by_cgroup t"
  by (simp add: unlink_indexes_def Let_def split: option.split)

lemma by_path_unlink [simp]: "by_path (unlink_indexes cg e t) = (by_path t)(se_cgroup_path e := None)"
  by (simp add: unlink_indexes_def Let_def split: option.split)

lemma pod_ids_unlink:
  "pod_ids (unlink_indexes cg e t) uid =
     (if uid = se_pod_uid e \<and> uid \<noteq> [] then pod_ids t uid - {cg} else pod_ids t uid)"
  by (auto simp: unlink_indexes_def pod_ids_def Let_def split: option.splits if_splits)
    (metis empty_iff set_removeAll list.set(1) Diff_iff singletonD)+

lemma by_pod_unlink_nonempty:
  "(\<forall>uid. by_pod t uid \<noteq> Some []) \<Longrightarrow> by_pod (unlink_indexes cg e t) uid \<noteq> Some []"
  by (auto simp: unlink_indexes_def Let_def split: option.splits if_splits)

lemma length_delete_le: "length (AList.delete x al) \<le> length al"
  by (simp add: AList.delete_eq)

lemma side_inv_remove:
  assumes "side_inv t" "rows t cg = Some e"
  shows "side_inv (unlink_indexes cg e (t\<lparr>by_cgroup := AList.delete cg (by_cgroup t)\<rparr>))"
proof -
  let ?t = "t\<lparr>by_cgroup := AList.delete cg (by_cgroup t)\<rparr>"
  have pods: "pod_ids ?t uid = pod_ids t uid" for uid by (simp add: pod_ids_def)
  show ?thesis
    unfolding side_inv_def pod_ids_unlink pods
    using assms by_pod_unlink_nonempty [of ?t cg e] length_delete_le [of cg "by_cgroup t"]
    by (auto simp: side_inv_def distinct_delete split: if_splits) (metis option.inject)
qed

lemma by_cgroup_link [simp]: "by_cgroup (link_entry cg e t) = AList.update cg e (by_cgroup t)"
  by (simp add: link_entry_def Let_def)

lemma by_path_link [simp]: "by_path (link_entry cg e t) = (by_path t)(se_cgroup_path e \<mapsto> cg)"
  by (simp add: link_entry_def Let_def)

lemma pod_ids_link:
  "pod_ids (link_entry cg e t) uid =
     (if uid = se_pod_uid e \<and> uid \<noteq> [] then insert cg (pod_ids t uid) else pod_ids t uid)"
  by (auto simp: link_entry_def pod_ids_def Let_def split: option.splits)

lemma by_pod_link_nonempty:
  "(\<forall>uid. by_pod t uid \<noteq> Some []) \<Longrightarrow> by_pod (link_entry cg e t) uid \<noteq> Some []"
  by (auto simp: link_entry_def Let_def List.insert_def split: option.splits if_splits)

lemma update_fresh: "x \<notin> fst ` set al \<Longrightarrow> AList.update x v al = al @ [(x, v)]"
  by (induction al) auto

lemma side_inv_link:
  assumes "side_inv t" "rows t cg = None" "length (by_cgroup t) < IDENTITY_ALLOW_CGROUPS_MAX_ENTRIES"
  shows "side_inv (link_entry cg e t)"
proof -
  have fresh: "cg \<notin> fst ` set (by_cgroup t)"
    using assms(2) by (simp add: map_of_eq_None_iff)
  then have "length (AList.update cg e (by_cgroup t)) = Suc (length (by_cgroup t))"
    by (simp add: update_fresh)
  then show ?thesis
    unfolding side_inv_def pod_ids_link
    using assms by_pod_link_nonempty [of t cg e] distinct_update [of "by_cgroup t" cg e]
    by (auto simp: side_inv_def split: if_splits) (metis option.distinct(1))
qed

lemma side_inv_new [simp]: "side_inv side_table_new"
  by (simp add: side_inv_def side_table_new_def pod_ids_def)

lemma length_delete_present: "rows t cg = Some e \<Longrightarrow> distinct (map fst (by_cgroup t)) \<Longrightarrow>
  length (AList.delete cg (by_cgroup t)) < length (by_cgroup t)"
proof -
  assume "rows t cg = Some e" "distinct (map fst (by_cgroup t))"
  then have "(cg, e) \<in> set (by_cgroup t)" by (simp add: map_of_eq_Some_iff)
  then show ?thesis
    unfolding AList.delete_eq by (intro length_filter_less) auto
qed

lemma rows_remove_by_cgroup: "rows (snd (remove_by_cgroup cg t)) = (rows t)(cg := None)"
  by (auto simp: remove_by_cgroup_def fun_eq_iff split: option.split)

lemma fst_remove_by_cgroup: "fst (remove_by_cgroup cg t) = rows t cg"
  by (simp add: remove_by_cgroup_def split: option.split)

lemma side_inv_remove_by_cgroup: "side_inv t \<Longrightarrow> side_inv (snd (remove_by_cgroup cg t))"
  by (simp add: remove_by_cgroup_def side_inv_remove split: option.split)

interpretation side: keyed_table rows remove_by_cgroup side_inv
  by unfold_locales (simp_all add: fst_remove_by_cgroup rows_remove_by_cgroup side_inv_remove_by_cgroup)

lemma table_full_iff:
  "length (by_cgroup t) \<le> IDENTITY_ALLOW_CGROUPS_MAX_ENTRIES \<Longrightarrow>
   table_full t \<longleftrightarrow> IDENTITY_ALLOW_CGROUPS_MAX_ENTRIES \<le> length (by_cgroup t)"
proof -
  assume le: "length (by_cgroup t) \<le> IDENTITY_ALLOW_CGROUPS_MAX_ENTRIES"
  have "(IDENTITY_ALLOW_CGROUPS_MAX_ENTRIES :: nat) < 2 ^ 32"
    by (simp add: IDENTITY_ALLOW_CGROUPS_MAX_ENTRIES_def)
  with le have "length (by_cgroup t) < 2 ^ LENGTH(32)"
    by simp
  then have "unat (of_nat (length (by_cgroup t)) :: u32) = length (by_cgroup t)"
    by (simp only: unat_of_nat mod_less)
  then show ?thesis by (simp only: table_full_def)
qed

lemma small_not_full: "length (by_cgroup t) < 64 \<Longrightarrow> \<not> table_full t"
proof -
  assume small: "length (by_cgroup t) < 64"
  then have "length (by_cgroup t) < IDENTITY_ALLOW_CGROUPS_MAX_ENTRIES"
    unfolding IDENTITY_ALLOW_CGROUPS_MAX_ENTRIES_def by linarith
  then show ?thesis by (simp add: table_full_iff)
qed

lemma side_inv_bound: "side_inv t \<Longrightarrow> length (by_cgroup t) \<le> IDENTITY_ALLOW_CGROUPS_MAX_ENTRIES"
  by (simp add: side_inv_def)

lemma insert_row_fresh:
  "rows t cg = None \<Longrightarrow>
   insert_row cg e t = (if table_full t then (RejectedFull, t) else (Inserted, link_entry cg e t))"
  by (simp add: insert_row_def)

lemma insert_row_replace:
  "rows t cg = Some old \<Longrightarrow>
   insert_row cg e t =
     (Replaced, link_entry cg e (unlink_indexes cg old (t\<lparr>by_cgroup := AList.delete cg (by_cgroup t)\<rparr>)))"
  by (simp add: insert_row_def)

lemma insert_row_result:
  assumes "side_inv t" "insert_row cg e t = (out, t')"
  shows "side_inv t'"
    "out = RejectedFull \<Longrightarrow> t' = t \<and> rows t cg = None"
    "out \<noteq> RejectedFull \<Longrightarrow> rows t' = (rows t)(cg \<mapsto> e)"
    "out = Replaced \<longleftrightarrow> rows t cg \<noteq> None"
proof -
  have "side_inv t' \<and> (out = RejectedFull \<longrightarrow> t' = t \<and> rows t cg = None) \<and>
    (out \<noteq> RejectedFull \<longrightarrow> rows t' = (rows t)(cg \<mapsto> e)) \<and> (out = Replaced \<longleftrightarrow> rows t cg \<noteq> None)"
  proof (cases "rows t cg")
    case None
    show ?thesis
    proof (cases "table_full t")
      case True
      with None assms show ?thesis by (simp add: insert_row_fresh)
    next
      case False
      with side_inv_bound [OF assms(1)] have "length (by_cgroup t) < IDENTITY_ALLOW_CGROUPS_MAX_ENTRIES"
        by (simp add: table_full_iff)
      from side_inv_link [OF assms(1) None this] None False assms(2) show ?thesis
        by (auto simp: insert_row_fresh)
    qed
  next
    case (Some old)
    let ?t = "unlink_indexes cg old (t\<lparr>by_cgroup := AList.delete cg (by_cgroup t)\<rparr>)"
    have "length (by_cgroup ?t) < IDENTITY_ALLOW_CGROUPS_MAX_ENTRIES"
      using length_delete_present [OF Some] assms(1) side_inv_bound [OF assms(1)] by (simp add: side_inv_def)
    with side_inv_link [OF side_inv_remove [OF assms(1) Some], of cg e] Some assms(2) show ?thesis
      by (auto simp: insert_row_replace [OF Some] fun_eq_iff)
  qed
  then show "side_inv t'" "out = RejectedFull \<Longrightarrow> t' = t \<and> rows t cg = None"
    "out \<noteq> RejectedFull \<Longrightarrow> rows t' = (rows t)(cg \<mapsto> e)" "out = Replaced \<longleftrightarrow> rows t cg \<noteq> None"
    by simp_all
qed

lemma drain_pod_Cons:
  "rows t i = None \<Longrightarrow> drain_pod (i # is) t = drain_pod is t"
  "rows t i = Some e \<Longrightarrow> drain_pod (i # is) t =
     (let r = drain_pod is (t\<lparr>by_cgroup := AList.delete i (by_cgroup t),
                               by_path := (by_path t)(se_cgroup_path e := None)\<rparr>)
      in ((i, e) # fst r, snd r))"
  by (simp_all add: Let_def split_beta)

declare drain_pod.simps(2) [simp del]

lemma drain_pod_rows: "rows (snd (drain_pod ids t)) = rows t |` (- set ids)"
proof (induction ids arbitrary: t)
  case (Cons i ids)
  show ?case
  proof (cases "rows t i")
    case None
    with Cons show ?thesis by (auto simp: drain_pod_Cons restrict_map_def)
  next
    case (Some e)
    with Cons show ?thesis by (simp add: drain_pod_Cons Let_def) (auto simp: restrict_map_def)
  qed
qed (simp add: restrict_map_def)

lemma drain_pod_out: "set (fst (drain_pod ids t)) = {(i, e). i \<in> set ids \<and> rows t i = Some e}"
proof (induction ids arbitrary: t)
  case (Cons i ids)
  show ?case
  proof (cases "rows t i")
    case None
    with Cons show ?thesis by (auto simp: drain_pod_Cons)
  next
    case (Some e)
    with Cons show ?thesis by (simp add: drain_pod_Cons Let_def) (auto split: if_splits)
  qed
qed simp

lemma drain_pod_rest:
  "by_pod (snd (drain_pod ids t)) = by_pod t"
  "distinct (map fst (by_cgroup t)) \<Longrightarrow> distinct (map fst (by_cgroup (snd (drain_pod ids t))))"
  "length (by_cgroup (snd (drain_pod ids t))) \<le> length (by_cgroup t)"
proof (induction ids arbitrary: t)
  case (Cons i ids)
  { case 1 show ?case using Cons.IH(1) by (cases "rows t i") (simp_all add: drain_pod_Cons Let_def) }
  { case 2 then show ?case using Cons.IH(2)
      by (cases "rows t i") (simp_all add: drain_pod_Cons Let_def distinct_delete) }
  { case 3 show ?case
    proof (cases "rows t i")
      case (Some e)
      let ?t = "t\<lparr>by_cgroup := AList.delete i (by_cgroup t), by_path := (by_path t)(se_cgroup_path e := None)\<rparr>"
      from Cons.IH(3) [of ?t] length_delete_le [of i "by_cgroup t"] Some show ?thesis
        by (simp add: drain_pod_Cons Let_def)
    qed (use Cons.IH(3) in \<open>simp add: drain_pod_Cons\<close>) }
qed simp_all

lemma drain_pod_paths:
  "by_path (snd (drain_pod ids t)) p = Some cg \<Longrightarrow>
   by_path t p = Some cg \<and> (\<forall>i \<in> set ids. \<forall>e. rows t i = Some e \<longrightarrow> se_cgroup_path e \<noteq> p)"
proof (induction ids arbitrary: t)
  case (Cons i ids)
  show ?case
  proof (cases "rows t i")
    case None
    with Cons show ?thesis by (auto simp: drain_pod_Cons)
  next
    case (Some e)
    let ?t = "t\<lparr>by_cgroup := AList.delete i (by_cgroup t), by_path := (by_path t)(se_cgroup_path e := None)\<rparr>"
    from Cons.prems Some have "by_path (snd (drain_pod ids ?t)) p = Some cg" by (simp add: drain_pod_Cons Let_def)
    from Cons.IH [OF this] Some show ?thesis by (auto split: if_splits)
  qed
qed simp

lemma remove_by_pod_result:
  assumes "side_inv t" "remove_by_pod uid t = (out, t')"
  shows "side_inv t'"
    "rows t' = rows t |` {cg. \<forall>e. rows t cg = Some e \<longrightarrow> uid = [] \<or> se_pod_uid e \<noteq> uid}"
    "set out = {(cg, e). rows t cg = Some e \<and> uid \<noteq> [] \<and> se_pod_uid e = uid}"
proof -
  have "side_inv t' \<and>
    rows t' = rows t |` {cg. \<forall>e. rows t cg = Some e \<longrightarrow> uid = [] \<or> se_pod_uid e \<noteq> uid} \<and>
    set out = {(cg, e). rows t cg = Some e \<and> uid \<noteq> [] \<and> se_pod_uid e = uid}"
  proof (cases "by_pod t uid")
    case None
    then have "pod_ids t uid = {}" by (simp add: pod_ids_def)
    with assms(1) have "uid = [] \<or> (\<forall>cg e. rows t cg = Some e \<longrightarrow> se_pod_uid e \<noteq> uid)"
      unfolding side_inv_def by blast
    with assms None show ?thesis
      by (auto simp: remove_by_pod_def restrict_map_def fun_eq_iff)
  next
    case (Some ids)
    let ?t = "t\<lparr>by_pod := (by_pod t)(uid := None)\<rparr>"
    from Some have run: "drain_pod ids ?t = (out, t')" using assms(2) by (simp add: remove_by_pod_def)
    have mem: "i \<in> set ids \<longleftrightarrow> uid \<noteq> [] \<and> (\<exists>e. rows t i = Some e \<and> se_pod_uid e = uid)" for i
      using assms(1) Some by (simp add: side_inv_def pod_ids_def) (metis (no_types, lifting) option.case(2))
    have d: "rows t' = rows t |` (- set ids)" "set out = {(i, e). i \<in> set ids \<and> rows t i = Some e}"
      "by_pod t' = (by_pod t)(uid := None)"
      using drain_pod_rows [of ids ?t] drain_pod_out [of ids ?t] drain_pod_rest(1) [of ids ?t] run by simp_all
    have d': "distinct (map fst (by_cgroup t'))" "length (by_cgroup t') \<le> length (by_cgroup t)"
      using drain_pod_rest(2) [of ?t ids] run assms(1) drain_pod_rest(3) [of ids ?t] by (simp_all add: side_inv_def)
    have rows': "rows t' = rows t |` {cg. \<forall>e. rows t cg = Some e \<longrightarrow> uid = [] \<or> se_pod_uid e \<noteq> uid}"
      unfolding d(1) by (auto simp: restrict_map_def fun_eq_iff mem)
    have out: "set out = {(cg, e). rows t cg = Some e \<and> uid \<noteq> [] \<and> se_pod_uid e = uid}"
      unfolding d(2) mem by auto
    have pods: "pod_ids t' u = (if u = uid then {} else pod_ids t u)" for u
      by (simp add: pod_ids_def d(3))
    have paths: "by_path t' p = Some cg \<Longrightarrow> \<exists>e. rows t' cg = Some e \<and> se_cgroup_path e = p" for p cg
    proof -
      assume "by_path t' p = Some cg"
      with drain_pod_paths [of ids ?t p cg] run
      have p: "by_path t p = Some cg" "\<forall>i \<in> set ids. \<forall>e. rows t i = Some e \<longrightarrow> se_cgroup_path e \<noteq> p"
        by simp_all
      with assms(1) obtain e where "rows t cg = Some e" "se_cgroup_path e = p"
        unfolding side_inv_def by blast
      with p mem rows' show ?thesis by (auto simp: restrict_map_def)
    qed
    have rows_iff: "rows t' cg = Some e \<longleftrightarrow> rows t cg = Some e \<and> (uid = [] \<or> se_pod_uid e \<noteq> uid)" for cg e
      by (auto simp: rows' restrict_map_def split: if_splits)
    have inv: "pod_ids t u = {cg. u \<noteq> [] \<and> (\<exists>e. rows t cg = Some e \<and> se_pod_uid e = u)}" for u
      using assms(1) unfolding side_inv_def by blast
    have "\<forall>u cg. cg \<in> pod_ids t' u \<longleftrightarrow> u \<noteq> [] \<and> (\<exists>e. rows t' cg = Some e \<and> se_pod_uid e = u)"
      unfolding pods rows_iff inv by auto
    moreover have "distinct (map fst (by_cgroup t'))" "length (by_cgroup t') \<le> IDENTITY_ALLOW_CGROUPS_MAX_ENTRIES"
      "\<forall>u. by_pod t' u \<noteq> Some []"
      using assms(1) d' d(3) by (auto simp: side_inv_def)
    ultimately have "side_inv t'"
      using paths unfolding side_inv_def by blast
    with rows' out show ?thesis by simp
  qed
  then show "side_inv t'"
    "rows t' = rows t |` {cg. \<forall>e. rows t cg = Some e \<longrightarrow> uid = [] \<or> se_pod_uid e \<noteq> uid}"
    "set out = {(cg, e). rows t cg = Some e \<and> uid \<noteq> [] \<and> se_pod_uid e = uid}"
    by simp_all
qed

subsection \<open>The table refines a map\<close>

datatype table_op =
  OpInsert u64 SideEntry | OpRemove u64 | OpRemovePod string | OpRemoveIds "u64 list"
  | OpSweep "path \<Rightarrow> bool" | OpClear

fun table_step :: "SideTable \<Rightarrow> table_op \<Rightarrow> SideTable" where
  "table_step t (OpInsert cg e) = snd (insert_row cg e t)"
| "table_step t (OpRemove cg) = snd (remove_by_cgroup cg t)"
| "table_step t (OpRemovePod uid) = snd (remove_by_pod uid t)"
| "table_step t (OpRemoveIds ids) = snd (remove_ids remove_by_cgroup ids t)"
| "table_step t (OpSweep ex) = snd (sweep_missing_paths ex t)"
| "table_step t OpClear = snd (clear_table t)"

text \<open>The same operations on a finite map with a capacity.\<close>

fun map_step :: "(u64 \<Rightarrow> SideEntry option) \<Rightarrow> table_op \<Rightarrow> (u64 \<Rightarrow> SideEntry option)" where
  "map_step m (OpInsert cg e) =
     (if cg \<notin> dom m \<and> IDENTITY_ALLOW_CGROUPS_MAX_ENTRIES \<le> card (dom m) then m else m(cg \<mapsto> e))"
| "map_step m (OpRemove cg) = m(cg := None)"
| "map_step m (OpRemovePod uid) = m |` {cg. \<forall>e. m cg = Some e \<longrightarrow> uid = [] \<or> se_pod_uid e \<noteq> uid}"
| "map_step m (OpRemoveIds ids) = m |` (- set ids)"
| "map_step m (OpSweep ex) = m |` {cg. \<forall>e. m cg = Some e \<longrightarrow> ex (se_cgroup_path e)}"
| "map_step m OpClear = Map.empty"

lemma card_rows: "side_inv t \<Longrightarrow> card (dom (rows t)) = length (by_cgroup t)"
proof -
  assume "side_inv t"
  then have "card (set (map fst (by_cgroup t))) = length (by_cgroup t)"
    using distinct_card [of "map fst (by_cgroup t)"] by (simp add: side_inv_def)
  then show ?thesis by (simp add: dom_map_of_conv_image_fst)
qed

lemma table_full_card: "side_inv t \<Longrightarrow>
  table_full t \<longleftrightarrow> IDENTITY_ALLOW_CGROUPS_MAX_ENTRIES \<le> card (dom (rows t))"
proof -
  assume inv: "side_inv t"
  then show ?thesis by (simp add: card_rows table_full_iff side_inv_bound)
qed

lemma rows_mem: "side_inv t \<Longrightarrow> rows t cg = Some e \<longleftrightarrow> (cg, e) \<in> set (by_cgroup t)"
  unfolding side_inv_def by (intro map_of_eq_Some_iff) blast

lemma mem_filter_ids:
  "cg \<in> set (map fst (filter P al)) \<longleftrightarrow> (\<exists>e. (cg, e) \<in> set al \<and> P (cg, e))"
  by (auto simp: image_iff)

lemma sweep_missing_paths_result:
  assumes "side_inv t"
  shows "side_inv (snd (sweep_missing_paths ex t))"
    "rows (snd (sweep_missing_paths ex t)) = rows t |` {cg. \<forall>e. rows t cg = Some e \<longrightarrow> ex (se_cgroup_path e)}"
    "set (fst (sweep_missing_paths ex t)) = {(cg, e). rows t cg = Some e \<and> \<not> ex (se_cgroup_path e)}"
proof -
  let ?ids = "map fst (filter (\<lambda>(_, e). \<not> ex (se_cgroup_path e)) (by_cgroup t))"
  have mem: "cg \<in> set ?ids \<longleftrightarrow> (\<exists>e. rows t cg = Some e \<and> \<not> ex (se_cgroup_path e))" for cg
    unfolding mem_filter_ids rows_mem [OF assms] by simp
  note spec = side.remove_ids_spec [OF assms, of ?ids]
  show "side_inv (snd (sweep_missing_paths ex t))"
    using spec by (simp add: sweep_missing_paths_def)
  show "rows (snd (sweep_missing_paths ex t)) = rows t |` {cg. \<forall>e. rows t cg = Some e \<longrightarrow> ex (se_cgroup_path e)}"
  proof
    fix cg
    have "rows (snd (sweep_missing_paths ex t)) cg = (rows t |` (- set ?ids)) cg"
      using spec by (simp only: sweep_missing_paths_def)
    also have "\<dots> = (rows t |` {cg. \<forall>e. rows t cg = Some e \<longrightarrow> ex (se_cgroup_path e)}) cg"
      unfolding restrict_map_def Compl_iff mem mem_Collect_eq by (cases "rows t cg") auto
    finally show "rows (snd (sweep_missing_paths ex t)) cg = \<dots>" .
  qed
  have "set (fst (sweep_missing_paths ex t)) = {(i, e). i \<in> set ?ids \<and> rows t i = Some e}"
    using spec by (simp only: sweep_missing_paths_def)
  then show "set (fst (sweep_missing_paths ex t)) = {(cg, e). rows t cg = Some e \<and> \<not> ex (se_cgroup_path e)}"
    unfolding mem by auto
qed

lemma insert_refines:
  assumes "side_inv t"
  shows "side_inv (snd (insert_row cg e t)) \<and> rows (snd (insert_row cg e t)) = map_step (rows t) (OpInsert cg e)"
proof -
  obtain out t' where i: "insert_row cg e t = (out, t')" by fastforce
  note r = insert_row_result [OF assms i]
  show ?thesis
  proof (cases "rows t cg")
    case None
    then have "out = RejectedFull \<longleftrightarrow> table_full t"
      using i by (auto simp: insert_row_fresh split: if_splits)
    with r None i table_full_card [OF assms] show ?thesis
      by (cases "table_full t") (auto simp: domIff)
  next
    case (Some old)
    with r i have "out = Replaced" by simp
    with r i Some show ?thesis by (auto simp: domIff)
  qed
qed

lemma pod_refines:
  assumes "side_inv t"
  shows "side_inv (snd (remove_by_pod uid t)) \<and> rows (snd (remove_by_pod uid t)) = map_step (rows t) (OpRemovePod uid)"
  using remove_by_pod_result [OF assms, of uid "fst (remove_by_pod uid t)" "snd (remove_by_pod uid t)"] by simp

lemma table_step_refines:
  assumes "side_inv t"
  shows "side_inv (table_step t op) \<and> rows (table_step t op) = map_step (rows t) op"
proof (cases op)
  case (OpInsert cg e)
  with insert_refines [OF assms] show ?thesis by simp
next
  case (OpRemove cg)
  with assms show ?thesis by (simp add: side_inv_remove_by_cgroup rows_remove_by_cgroup)
next
  case (OpRemovePod uid)
  with pod_refines [OF assms] show ?thesis by simp
next
  case (OpRemoveIds ids)
  with side.remove_ids_spec [OF assms, of ids] show ?thesis by simp
next
  case (OpSweep ex)
  with sweep_missing_paths_result [OF assms, of ex] show ?thesis by simp
next
  case OpClear
  then show ?thesis by (simp add: clear_table_def) (simp add: side_table_new_def)
qed

text \<open>
  C10. Whatever sequence of insertions, removals, pod deletions, revocations, sweeps and resets
  the correlator performs, the side table behaves as a map of bounded size: its rows are those
  of the map after the same operations, its keys are distinct and never more than the BPF map
  can hold, the pod index lists exactly the rows of each pod, and the path index only names
  rows with that path.
\<close>

theorem side_table_refines_map:
  "side_inv (foldl table_step side_table_new ops) \<and>
   rows (foldl table_step side_table_new ops) = foldl map_step Map.empty ops"
proof (induction ops rule: rev_induct)
  case Nil
  show ?case by (simp add: side_table_new_def [THEN arg_cong, of rows])
next
  case (snoc op ops)
  with table_step_refines [of "foldl table_step side_table_new ops" op] show ?case by simp
qed

subsection \<open>Finding a row by its path\<close>

lemma paths_indexed_remove:
  assumes "side_inv t" "paths_indexed t" "rows t cg = Some e"
  shows "paths_indexed (unlink_indexes cg e (t\<lparr>by_cgroup := AList.delete cg (by_cgroup t)\<rparr>))"
  using assms by (auto simp: paths_indexed_def split: if_splits) (metis option.inject)+

text \<open>
  C19. While no two cgroups share a directory, a teardown finds its row: inserting a row under
  a path no other row has keeps every row reachable by its path, and so does removing a row;
  a lookup by path then returns exactly the cgroup with that path.
\<close>

theorem path_index_complete:
  assumes "side_inv t" "paths_indexed t"
    "\<forall>c x. rows t c = Some x \<and> c \<noteq> cg \<longrightarrow> se_cgroup_path x \<noteq> se_cgroup_path e"
  shows "paths_indexed (snd (insert_row cg e t)) \<and> paths_indexed (snd (remove_by_cgroup c t)) \<and>
    (cgroup_id_for_path p t = Some c \<longleftrightarrow> (\<exists>x. rows t c = Some x \<and> se_cgroup_path x = p))"
proof (intro conjI)
  have link: "paths_indexed (link_entry cg e u)"
    if "paths_indexed u" "rows u cg = None" "\<forall>c x. rows u c = Some x \<longrightarrow> se_cgroup_path x \<noteq> se_cgroup_path e" for u
    using that by (auto simp: paths_indexed_def)
  show "paths_indexed (snd (insert_row cg e t))"
  proof (cases "rows t cg")
    case None
    have "\<forall>c x. rows t c = Some x \<longrightarrow> se_cgroup_path x \<noteq> se_cgroup_path e"
      using assms(3) None by fastforce
    with link [OF assms(2) None] assms(2) None show ?thesis by (simp add: insert_row_fresh)
  next
    case (Some old)
    let ?u = "unlink_indexes cg old (t\<lparr>by_cgroup := AList.delete cg (by_cgroup t)\<rparr>)"
    have "paths_indexed (link_entry cg e ?u)"
      using paths_indexed_remove [OF assms(1,2) Some] assms(3) by (intro link) (auto split: if_splits)
    with Some show ?thesis by (simp add: insert_row_replace)
  qed
  show "paths_indexed (snd (remove_by_cgroup c t))"
    using paths_indexed_remove [OF assms(1,2)] assms(2) by (auto simp: remove_by_cgroup_def split: option.split)
  show "cgroup_id_for_path p t = Some c \<longleftrightarrow> (\<exists>x. rows t c = Some x \<and> se_cgroup_path x = p)"
    using assms(1,2) by (auto simp: cgroup_id_for_path_def side_inv_def paths_indexed_def)
qed

definition sample_entry :: "string \<Rightarrow> path \<Rightarrow> u64 \<Rightarrow> SideEntry" where
  "sample_entry uid p i =
     \<lparr>se_pod_uid = uid, se_namespace = ''ns'', se_service_account = ''sa'', se_spiffe_id = ''s'',
      se_cgroup_path = p, se_inode = i\<rparr>"

definition sample_table :: SideTable where
  "sample_table = snd (insert_row 1 (sample_entry ''u1'' [''a''] 1) side_table_new)"

theorem path_index_complete_witness:
  "paths_indexed (snd (insert_row 2 (sample_entry ''u2'' [''b''] 2) sample_table)) \<and>
   cgroup_id_for_path [''a''] sample_table = Some 1"
proof -
  have rows: "rows sample_table = [1 \<mapsto> sample_entry ''u1'' [''a''] 1]"
    by (simp add: sample_table_def insert_row_def small_not_full side_table_new_def)
  have inv: "side_inv sample_table"
    using insert_row_result(1) [OF side_inv_new] unfolding sample_table_def by (metis prod.collapse)
  have idx: "paths_indexed sample_table"
    by (simp add: paths_indexed_def rows)
      (simp add: sample_table_def insert_row_def small_not_full side_table_new_def sample_entry_def)
  have "\<forall>c x. rows sample_table c = Some x \<and> c \<noteq> 2 \<longrightarrow>
      se_cgroup_path x \<noteq> se_cgroup_path (sample_entry ''u2'' [''b''] 2)"
    by (auto simp: rows sample_entry_def)
  from path_index_complete [OF inv idx this, of 1 "[''a'']"] show ?thesis
    by (simp add: rows) (simp add: sample_entry_def)
qed


end
