(* ===== verification/Cgroup_Paths.thy ===== *)
theory Cgroup_Paths
  imports Side_Table Utf8
begin

section \<open>Cgroup paths and identities: \<open>identity_correlator/{path_parse,container_match,cgroup_resolve,spiffe}.rs\<close>\<close>

text \<open>
  How a pod and a container are found below the cgroup root, how a pod uid is read back from
  a cgroup path, and how a SPIFFE id is built. The file system is the record \<open>CgroupFs\<close> of
  what its calls return; a name that a \<open>str\<close> slice cannot cut is a panic, the value \<open>None\<close> of
  the matching functions.
\<close>

record CgroupFs =
  fs_exists :: "path \<Rightarrow> bool"
  fs_is_dir :: "path \<Rightarrow> bool"
  fs_ino :: "path \<Rightarrow> u64 option"
  fs_read_dir :: "path \<Rightarrow> string list option"
  fs_denied :: "path \<Rightarrow> bool"

subsection \<open>Path components\<close>

text \<open>
  \<open>Path::components\<close>: empty components and inner dots are dropped; a leading dot stays. The
  callers drop the root itself.
\<close>

definition path_components :: "string \<Rightarrow> string list" where
  "path_components s =
     (case split_on CHR ''/'' s of
        [] \<Rightarrow> []
      | c # cs \<Rightarrow> (if c = [] then [] else [c]) @ filter (\<lambda>x. x \<noteq> [] \<and> x \<noteq> ''.'') cs)"

definition path_join :: "path \<Rightarrow> string \<Rightarrow> path" where
  "path_join p s =
     (if starts_with s ''/'' then path_components s
      else p @ filter (\<lambda>x. x \<noteq> [] \<and> x \<noteq> ''.'') (split_on CHR ''/'' s))"

text \<open>An absolute path as text.\<close>

definition path_str :: "path \<Rightarrow> string" where
  "path_str p = CHR ''/'' # join_with CHR ''/'' p"

subsection \<open>\<open>path_parse.rs\<close>\<close>

datatype CgroupPathStyle = Cgroupfs | Systemd

record ParsedCgroupPath =
  pcp_pod_uid :: string
  pcp_container_id :: "string option"
  pcp_qos :: "string option"
  pcp_style :: CgroupPathStyle

definition normalize_pod_uid :: "string \<Rightarrow> string" where
  "normalize_pod_uid raw = replace_char CHR ''_'' CHR ''-'' raw"

definition keep_container :: "string option \<Rightarrow> string option" where
  "keep_container c =
     (case c of None \<Rightarrow> None | Some x \<Rightarrow> if x \<noteq> [] \<and> \<not> starts_with x ''pod'' then Some x else None)"

definition cgroupfs_result :: "string option \<Rightarrow> string \<Rightarrow> string option \<Rightarrow> ParsedCgroupPath option" where
  "cgroupfs_result qos pod_comp container_id =
     (case strip_prefix pod_comp ''pod'' of
        None \<Rightarrow> None
      | Some uid_raw \<Rightarrow>
          if uid_raw = [] then None
          else Some \<lparr>pcp_pod_uid = normalize_pod_uid uid_raw, pcp_container_id = keep_container container_id,
                     pcp_qos = qos, pcp_style = Cgroupfs\<rparr>)"

definition nth_opt :: "'a list \<Rightarrow> nat \<Rightarrow> 'a option" where
  "nth_opt xs i = (if i < length xs then Some (xs ! i) else None)"

definition parse_cgroupfs :: "string \<Rightarrow> ParsedCgroupPath option" where
  "parse_cgroupfs path =
     (let comps = path_components path in
      case position (\<lambda>c. c = ''kubepods'') comps of
        None \<Rightarrow> None
      | Some idx \<Rightarrow>
          (let rest = drop (idx + 1) comps in
           if rest = [] then None
           else if starts_with (rest ! 0) ''pod''
           then cgroupfs_result None (rest ! 0) (nth_opt rest 1)
           else if 2 \<le> length rest \<and> starts_with (rest ! 1) ''pod''
           then cgroupfs_result (Some (rest ! 0)) (rest ! 1) (nth_opt rest 2)
           else None))"

definition extract_systemd_pod_uid :: "string \<Rightarrow> string option" where
  "extract_systemd_pod_uid part =
     (case strip_suffix part ''.slice'' of
        None \<Rightarrow> None
      | Some base \<Rightarrow>
          (case find_sub ''-pod'' base of
             None \<Rightarrow> None
           | Some idx \<Rightarrow>
               (let uid_raw = drop (idx + 4) base in
                if uid_raw = [] \<or> contains_sub uid_raw ''kubepods'' then None
                else Some (normalize_pod_uid uid_raw))))"

definition extract_systemd_qos :: "string \<Rightarrow> string option" where
  "extract_systemd_qos part =
     (case strip_suffix part ''.slice'' of
        None \<Rightarrow> None
      | Some base \<Rightarrow>
          (case strip_prefix base ''kubepods-'' of
             None \<Rightarrow> None
           | Some rest \<Rightarrow>
               if starts_with rest ''pod'' then None
               else
                 (let qos = (case split_once rest ''-pod'' of Some (q, _) \<Rightarrow> q | None \<Rightarrow> rest) in
                  if qos = ''burstable'' \<or> qos = ''besteffort'' then Some qos else None)))"

fun systemd_loop ::
  "string list \<Rightarrow> string option \<times> string option \<times> string option \<Rightarrow> string option \<times> string option \<times> string option" where
  "systemd_loop [] st = st"
| "systemd_loop (part # comps) (qos, pod_uid, container_id) =
     (case extract_systemd_pod_uid part of
        Some uid \<Rightarrow> systemd_loop comps (extract_systemd_qos part, Some uid, container_id)
      | None \<Rightarrow>
          systemd_loop comps
            (qos, pod_uid,
             if pod_uid \<noteq> None \<and> ends_with part ''.scope'' then Some part else container_id))"

definition parse_systemd :: "string \<Rightarrow> ParsedCgroupPath option" where
  "parse_systemd path =
     (let comps = path_components path in
      case position (\<lambda>c. c = ''kubepods.slice'') comps of
        None \<Rightarrow> None
      | Some _ \<Rightarrow>
          (case systemd_loop comps (None, None, None) of
             (qos, None, container_id) \<Rightarrow> None
           | (qos, Some uid, container_id) \<Rightarrow>
               Some \<lparr>pcp_pod_uid = uid, pcp_container_id = container_id, pcp_qos = qos, pcp_style = Systemd\<rparr>))"

definition parse_cgroup_path :: "string \<Rightarrow> ParsedCgroupPath option" where
  "parse_cgroup_path path =
     (let normalized = replace_char (CHR 0x5C) CHR ''/'' path in
      case parse_systemd normalized of Some p \<Rightarrow> Some p | None \<Rightarrow> parse_cgroupfs normalized)"

subsection \<open>\<open>container_match.rs\<close>\<close>

definition strip_runtime_prefix :: "string \<Rightarrow> string option" where
  "strip_runtime_prefix container_id =
     (let s = trim container_id in
      if s = [] then None
      else case split_once s ''://'' of
        Some (_, rest) \<Rightarrow> if trim rest = [] then None else Some (trim rest)
      | None \<Rightarrow> Some s)"

definition child_matches_raw_id :: "string \<Rightarrow> string \<Rightarrow> bool option" where
  "child_matches_raw_id child raw =
     (if raw = [] then Some False
      else if child = raw then Some True
      else if contains_sub child raw \<and> ends_with child ''.scope'' then Some True
      else if 12 \<le> length raw \<and> 12 \<le> length child \<and> starts_with raw child then Some True
      else if 12 \<le> length child \<and> 12 \<le> length raw then
        (if is_char_boundary raw 12 then Some (starts_with child (take 12 raw)) else None)
      else Some False)"

definition candidate_pod_dirs :: "path \<Rightarrow> string \<Rightarrow> path list" where
  "candidate_pod_dirs root pod_uid =
     (let uid = trim pod_uid;
          uid_under = replace_char CHR ''-'' CHR ''_'' uid;
          slice_root = path_join root ''kubepods.slice'' in
      [path_join (path_join root ''kubepods'') (''pod'' @ uid),
       path_join (path_join (path_join root ''kubepods'') ''burstable'') (''pod'' @ uid),
       path_join (path_join (path_join root ''kubepods'') ''besteffort'') (''pod'' @ uid),
       path_join slice_root (''kubepods-pod'' @ uid_under @ ''.slice''),
       path_join (path_join slice_root ''kubepods-burstable.slice'')
         (''kubepods-burstable-pod'' @ uid_under @ ''.slice''),
       path_join (path_join slice_root ''kubepods-besteffort.slice'')
         (''kubepods-besteffort-pod'' @ uid_under @ ''.slice'')])"

definition find_existing_pod_dir :: "CgroupFs \<Rightarrow> path \<Rightarrow> string \<Rightarrow> path option" where
  "find_existing_pod_dir fs root pod_uid = find (fs_is_dir fs) (candidate_pod_dirs root pod_uid)"

text \<open>The scan of a pod directory; the outer option is the panic of the name match.\<close>

fun leaf_scan :: "CgroupFs \<Rightarrow> path \<Rightarrow> string \<Rightarrow> string list \<Rightarrow> path option option" where
  "leaf_scan fs pod_dir raw [] = Some None"
| "leaf_scan fs pod_dir raw (n # ns) =
     (case child_matches_raw_id (from_utf8_lossy (str_bytes n)) raw of
        None \<Rightarrow> None
      | Some True \<Rightarrow> if fs_is_dir fs (pod_dir @ [n]) then Some (Some (pod_dir @ [n])) else leaf_scan fs pod_dir raw ns
      | Some False \<Rightarrow> leaf_scan fs pod_dir raw ns)"

definition find_container_leaf :: "CgroupFs \<Rightarrow> path \<Rightarrow> string \<Rightarrow> path option option" where
  "find_container_leaf fs pod_dir raw =
     (case fs_read_dir fs pod_dir of None \<Rightarrow> Some None | Some names \<Rightarrow> leaf_scan fs pod_dir raw names)"

subsection \<open>\<open>cgroup_resolve.rs\<close>\<close>

datatype resolve_error = StatFailed path | ReadDirFailed path | NotADirectory path | NoSuchCgroup u64

text \<open>
  The depth-first walk. \<open>fuel\<close> bounds its depth; \<open>None\<close> means the bound was reached. The walk
  of the source has no bound: a directory tree is finite.
\<close>

fun find_inode :: "nat \<Rightarrow> CgroupFs \<Rightarrow> path \<Rightarrow> u64 \<Rightarrow> (resolve_error + path option) option"
  and find_inode_list :: "nat \<Rightarrow> CgroupFs \<Rightarrow> path \<Rightarrow> string list \<Rightarrow> u64 \<Rightarrow> (resolve_error + path option) option" where
  "find_inode 0 fs dir target = None"
| "find_inode (Suc fuel) fs dir target =
     (case fs_ino fs dir of
        None \<Rightarrow> Some (Inl (StatFailed dir))
      | Some ino \<Rightarrow>
          if ino = target then Some (Inr (Some dir))
          else (case fs_read_dir fs dir of
                  None \<Rightarrow> if fs_denied fs dir then Some (Inr None) else Some (Inl (ReadDirFailed dir))
                | Some names \<Rightarrow> find_inode_list fuel fs dir names target))"
| "find_inode_list fuel fs dir [] target = Some (Inr None)"
| "find_inode_list fuel fs dir (n # ns) target =
     (if \<not> fs_is_dir fs (dir @ [n]) \<or> n = ''.'' \<or> n = ''..'' then find_inode_list fuel fs dir ns target
      else (case find_inode fuel fs (dir @ [n]) target of
              None \<Rightarrow> None
            | Some (Inl e) \<Rightarrow> Some (Inl e)
            | Some (Inr (Some p)) \<Rightarrow> Some (Inr (Some p))
            | Some (Inr None) \<Rightarrow> find_inode_list fuel fs dir ns target))"

definition path_for_cgroup_id :: "nat \<Rightarrow> CgroupFs \<Rightarrow> path \<Rightarrow> u64 \<Rightarrow> (resolve_error + path) option" where
  "path_for_cgroup_id fuel fs root cg =
     (if \<not> fs_is_dir fs root then Some (Inl (NotADirectory root))
      else (case find_inode fuel fs root cg of
              None \<Rightarrow> None
            | Some (Inl e) \<Rightarrow> Some (Inl e)
            | Some (Inr (Some p)) \<Rightarrow> Some (Inr p)
            | Some (Inr None) \<Rightarrow> Some (Inl (NoSuchCgroup cg))))"

definition inode_of_path :: "CgroupFs \<Rightarrow> path \<Rightarrow> resolve_error + u64" where
  "inode_of_path fs p = ok_or (fs_ino fs p) (StatFailed p)"

subsection \<open>\<open>spiffe.rs\<close>\<close>

definition DEFAULT_SPIFFE_TRUST_DOMAIN :: string where
  "DEFAULT_SPIFFE_TRUST_DOMAIN = ''neuromesh.security''"

text \<open>\<open>env\<close> is the value of \<open>NEUROMESH_SPIFFE_TRUST_DOMAIN\<close>, if it is set.\<close>

definition trust_domain_from_env :: "string option \<Rightarrow> string" where
  "trust_domain_from_env env =
     (case env of
        Some v \<Rightarrow> if trim v = [] then DEFAULT_SPIFFE_TRUST_DOMAIN else trim v
      | None \<Rightarrow> DEFAULT_SPIFFE_TRUST_DOMAIN)"

definition construct_spiffe_id :: "string \<Rightarrow> string \<Rightarrow> string \<Rightarrow> string" where
  "construct_spiffe_id trust_domain namespace service_account =
     (let sa = (if trim service_account = [] then ''default'' else trim service_account) in
      ''spiffe://'' @ trim trust_domain @ ''/ns/'' @ trim namespace @ ''/sa/'' @ sa)"

subsection \<open>Reading a pod uid back\<close>

lemma position_append:
  "(\<And>x. x \<in> set xs \<Longrightarrow> \<not> P x) \<Longrightarrow> P y \<Longrightarrow> position P (xs @ y # ys) = Some (length xs)"
  by (induction xs) auto

definition plain_part :: "string \<Rightarrow> bool" where
  "plain_part c \<longleftrightarrow> c \<noteq> [] \<and> c \<noteq> ''.'' \<and> CHR ''/'' \<notin> set c \<and> CHR 0x5C \<notin> set c"

lemma path_components_path_str: "list_all plain_part p \<Longrightarrow> p \<noteq> [] \<Longrightarrow> path_components (path_str p) = p"
proof -
  assume p: "list_all plain_part p" "p \<noteq> []"
  then have "split_on CHR ''/'' (path_str p) = [] # p"
    using split_on_join [of p "CHR ''/''"] by (auto simp: path_str_def list_all_iff plain_part_def)
  moreover have "filter (\<lambda>x. x \<noteq> [] \<and> x \<noteq> ''.'') p = p"
    using p by (auto simp: list_all_iff plain_part_def filter_id_conv)
  ultimately show ?thesis by (simp add: path_components_def)
qed

lemma set_join_with: "set (join_with c xs) \<subseteq> insert c (\<Union> (set ` set xs))"
  by (induction c xs rule: join_with.induct) auto

lemma replace_char_id: "a \<notin> set s \<Longrightarrow> replace_char a b s = s"
  by (auto simp: replace_char_def intro: map_idI)

lemma path_str_no_backslash: "list_all plain_part p \<Longrightarrow> replace_char (CHR 0x5C) CHR ''/'' (path_str p) = path_str p"
proof (rule replace_char_id)
  assume "list_all plain_part p"
  then show "CHR 0x5C \<notin> set (path_str p)"
    using set_join_with [of "CHR ''/''" p] by (auto simp: path_str_def list_all_iff plain_part_def)
qed

text \<open>A pod uid as Kubernetes issues it: hexadecimal digits and dashes.\<close>

definition uid_char :: "char \<Rightarrow> bool" where
  "uid_char c \<longleftrightarrow> c \<in> set ''0123456789abcdef-''"

definition wf_uid :: "string \<Rightarrow> bool" where
  "wf_uid uid \<longleftrightarrow> uid \<noteq> [] \<and> list_all uid_char uid"

text \<open>A cgroup root, and names below a pod directory, that do not look like pod directories.\<close>

definition neutral_part :: "string \<Rightarrow> bool" where
  "neutral_part c \<longleftrightarrow> plain_part c \<and> c \<noteq> ''kubepods'' \<and> \<not> ends_with c ''.slice''"

lemma uid_char_facts: "uid_char c \<Longrightarrow> visible c \<and> c \<noteq> CHR ''/'' \<and> c \<noteq> CHR 0x5C \<and> c \<noteq> CHR ''_'' \<and> c \<noteq> CHR ''k''"
  by (auto simp: uid_char_def visible_def)

lemma wf_uid_trim: "wf_uid uid \<Longrightarrow> trim uid = uid"
  by (rule trim_visible) (auto simp: wf_uid_def list_all_iff uid_char_facts)

lemma wf_uid_notin:
  "wf_uid uid \<Longrightarrow> CHR ''/'' \<notin> set uid" "wf_uid uid \<Longrightarrow> CHR 0x5C \<notin> set uid"
  "wf_uid uid \<Longrightarrow> CHR ''_'' \<notin> set uid" "wf_uid uid \<Longrightarrow> CHR ''k'' \<notin> set uid"
  using uid_char_facts by (auto simp: wf_uid_def list_all_iff)

abbreviation under :: "string \<Rightarrow> string" where
  "under uid \<equiv> replace_char CHR ''-'' CHR ''_'' uid"

lemma set_under: "c \<in> set (under uid) \<Longrightarrow> c = CHR ''_'' \<or> c \<in> set uid"
  by (auto simp: replace_char_def split: if_splits)

lemma normalize_under: "wf_uid uid \<Longrightarrow> normalize_pod_uid (under uid) = uid"
proof -
  assume "wf_uid uid"
  then have "CHR ''_'' \<notin> set uid" by (rule wf_uid_notin)
  then show ?thesis by (induction uid) (auto simp: normalize_pod_uid_def replace_char_def)
qed

lemma normalize_plain: "wf_uid uid \<Longrightarrow> normalize_pod_uid uid = uid"
  by (simp add: normalize_pod_uid_def replace_char_id wf_uid_notin)

lemma no_kubepods: "CHR ''k'' \<notin> set s \<Longrightarrow> \<not> contains_sub s ''kubepods''"
  by (auto simp: contains_sub_iff)

lemma strip_slice: "strip_suffix (x @ ''.slice'') ''.slice'' = Some x"
  by (simp add: strip_suffix_Some)

lemma extract_pod_uid:
  assumes "wf_uid uid" "pre \<in> {''kubepods'', ''kubepods-burstable'', ''kubepods-besteffort''}"
  shows "extract_systemd_pod_uid (pre @ ''-pod'' @ under uid @ ''.slice'') = Some uid"
proof -
  have u: "CHR ''k'' \<notin> set (under uid)" "under uid \<noteq> []"
    using assms(1) wf_uid_notin(4) [OF assms(1)] set_under [of "CHR ''k''" uid]
    by (auto simp: wf_uid_def replace_char_def)
  have "find_sub ''-pod'' (pre @ ''-pod'' @ under uid) = Some (length pre)"
    using assms(2) by auto
  then show ?thesis
    using strip_slice [of "pre @ ''-pod'' @ under uid"] u
    by (simp add: extract_systemd_pod_uid_def Let_def no_kubepods normalize_under [OF assms(1)])
qed

lemma extract_not_slice: "\<not> ends_with c ''.slice'' \<Longrightarrow> extract_systemd_pod_uid c = None"
  by (simp add: extract_systemd_pod_uid_def strip_suffix_def)

lemma extract_concrete:
  "extract_systemd_pod_uid ''kubepods.slice'' = None"
  "extract_systemd_pod_uid ''kubepods-burstable.slice'' = None"
  "extract_systemd_pod_uid ''kubepods-besteffort.slice'' = None"
  by (simp_all add: extract_systemd_pod_uid_def strip_suffix_def ends_with_def)

lemma systemd_loop_skip:
  "list_all (\<lambda>c. extract_systemd_pod_uid c = None) xs \<Longrightarrow>
   \<exists>cid. systemd_loop (xs @ ys) (q, u, c) = systemd_loop ys (q, u, cid)"
proof (induction xs arbitrary: c)
  case (Cons x xs)
  then show ?case by auto
qed auto

lemma systemd_pod_uid:
  assumes "list_all (\<lambda>c. extract_systemd_pod_uid c = None) xs" "extract_systemd_pod_uid x = Some uid"
    "list_all (\<lambda>c. extract_systemd_pod_uid c = None) ys"
  shows "\<exists>q cid. systemd_loop (xs @ x # ys) (None, None, None) = (q, Some uid, cid)"
proof -
  obtain c1 where "systemd_loop (xs @ x # ys) (None, None, None) = systemd_loop (x # ys) (None, None, c1)"
    using systemd_loop_skip [OF assms(1), of "x # ys" None None None] by auto
  moreover obtain c2 where "systemd_loop (ys @ []) (extract_systemd_qos x, Some uid, c1) =
      systemd_loop [] (extract_systemd_qos x, Some uid, c2)"
    using systemd_loop_skip [OF assms(3), of "[]" "extract_systemd_qos x" "Some uid" c1] by auto
  ultimately show ?thesis using assms(2) by simp
qed

lemma path_join_plain: "plain_part s \<Longrightarrow> path_join p s = p @ [s]"
  by (auto simp: path_join_def plain_part_def split_on_no_sep starts_with_def take_Suc_conv_app_nth)
    (metis list.set_intros(1) neq_Nil_conv nth_Cons_0)

lemma plain_concrete:
  "plain_part ''kubepods''" "plain_part ''burstable''" "plain_part ''besteffort''" "plain_part ''kubepods.slice''"
  "plain_part ''kubepods-burstable.slice''" "plain_part ''kubepods-besteffort.slice''"
  by (simp_all add: plain_part_def)

lemma plain_pod:
  assumes "wf_uid uid"
  shows "plain_part (''pod'' @ uid)" "plain_part (pre @ under uid @ ''.slice'') \<longleftrightarrow> CHR ''/'' \<notin> set pre \<and> CHR 0x5C \<notin> set pre"
  using wf_uid_notin [OF assms] set_under [of "CHR ''/''" uid] set_under [of "CHR 0x5C" uid]
  by (auto simp: plain_part_def append_eq_Cons_conv)

lemma candidate_pod_dirs_eq:
  assumes "wf_uid uid"
  shows "candidate_pod_dirs root uid =
    [root @ [''kubepods'', ''pod'' @ uid], root @ [''kubepods'', ''burstable'', ''pod'' @ uid],
     root @ [''kubepods'', ''besteffort'', ''pod'' @ uid],
     root @ [''kubepods.slice'', ''kubepods'' @ ''-pod'' @ under uid @ ''.slice''],
     root @ [''kubepods.slice'', ''kubepods-burstable.slice'', ''kubepods-burstable'' @ ''-pod'' @ under uid @ ''.slice''],
     root @ [''kubepods.slice'', ''kubepods-besteffort.slice'', ''kubepods-besteffort'' @ ''-pod'' @ under uid @ ''.slice'']]"
proof -
  have pods: "plain_part (''pod'' @ uid)" "plain_part (''kubepods-pod'' @ under uid @ ''.slice'')"
    "plain_part (''kubepods-burstable-pod'' @ under uid @ ''.slice'')"
    "plain_part (''kubepods-besteffort-pod'' @ under uid @ ''.slice'')"
    by (simp_all only: plain_pod [OF assms]) simp_all
  show ?thesis
    unfolding candidate_pod_dirs_def Let_def wf_uid_trim [OF assms]
    by (simp only: path_join_plain [OF pods(1)] path_join_plain [OF pods(2)] path_join_plain [OF pods(3)]
        path_join_plain [OF pods(4)] plain_concrete path_join_plain) simp
qed

lemma neutral_ne: "neutral_part c \<Longrightarrow> c \<noteq> ''kubepods.slice'' \<and> c \<noteq> ''kubepods''"
  by (auto simp: neutral_part_def ends_with_def)

lemma neutral_set_ne:
  "list_all neutral_part cs \<Longrightarrow> c \<in> set cs \<Longrightarrow> c \<noteq> ''kubepods.slice'' \<and> c \<noteq> ''kubepods''"
  by (auto simp: list_all_iff dest: neutral_ne)

lemma neutral_plain: "list_all neutral_part cs \<Longrightarrow> list_all plain_part cs"
  by (auto simp: list_all_iff neutral_part_def)

lemma parse_cgroupfs_pod:
  assumes "wf_uid uid" "list_all neutral_part root" "list_all neutral_part ls"
    "mid \<in> {[], [''burstable''], [''besteffort'']}"
  shows "\<exists>r. parse_cgroup_path (path_str (root @ ''kubepods'' # mid @ (''pod'' @ uid) # ls)) = Some r \<and>
    pcp_pod_uid r = uid \<and> pcp_style r = Cgroupfs"
proof -
  define x where "x = ''pod'' @ uid"
  define p where "p = root @ ''kubepods'' # mid @ x # ls"
  have plain: "list_all plain_part p"
    using assms(4) plain_pod(1) [OF assms(1)] plain_concrete neutral_plain [OF assms(2)] neutral_plain [OF assms(3)]
    by (auto simp: p_def x_def)
  have comps: "path_components (path_str p) = p" by (rule path_components_path_str [OF plain]) (simp add: p_def)
  have x: "starts_with x ''pod''" "strip_prefix x ''pod'' = Some uid" "x \<noteq> ''kubepods.slice''"
    by (auto simp: x_def strip_prefix_Some)
  have "''kubepods.slice'' \<notin> set p"
    using assms(4) x(3) neutral_set_ne [OF assms(2)] neutral_set_ne [OF assms(3)] by (auto simp: p_def)
  then have "position (\<lambda>c. c = ''kubepods.slice'') p = None"
    by (auto simp: position_None)
  then have "parse_systemd (path_str p) = None" by (simp add: parse_systemd_def comps)
  moreover have pos: "position (\<lambda>c. c = ''kubepods'') p = Some (length root)"
    unfolding p_def using neutral_set_ne [OF assms(2)] by (intro position_append) auto
  have rest: "drop (length root + 1) p = mid @ x # ls" by (simp add: p_def)
  have res: "cgroupfs_result q x c = Some \<lparr>pcp_pod_uid = uid, pcp_container_id = keep_container c,
      pcp_qos = q, pcp_style = Cgroupfs\<rparr>" for q c
    using assms(1) x(2) normalize_plain [OF assms(1)] by (simp add: cgroupfs_result_def wf_uid_def)
  have "\<exists>r. parse_cgroupfs (path_str p) = Some r \<and> pcp_pod_uid r = uid \<and> pcp_style r = Cgroupfs"
    using assms(4) x(1) unfolding parse_cgroupfs_def comps Let_def pos option.case rest
    by (auto simp: res)
  ultimately show ?thesis
    unfolding x_def [symmetric] p_def [symmetric]
    by (simp add: parse_cgroup_path_def path_str_no_backslash [OF plain])
qed

lemma parse_systemd_pod:
  assumes "wf_uid uid" "list_all neutral_part root" "list_all neutral_part ls"
    "(mid, pre) \<in> {([], ''kubepods''), ([''kubepods-burstable.slice''], ''kubepods-burstable''),
                    ([''kubepods-besteffort.slice''], ''kubepods-besteffort'')}"
  shows "\<exists>r. parse_cgroup_path (path_str (root @ ''kubepods.slice'' # mid @ (pre @ ''-pod'' @ under uid @ ''.slice'') # ls)) =
      Some r \<and> pcp_pod_uid r = uid \<and> pcp_style r = Systemd"
proof -
  define x where "x = pre @ ''-pod'' @ under uid @ ''.slice''"
  define p where "p = root @ ''kubepods.slice'' # mid @ x # ls"
  have x: "plain_part x"
    using plain_pod(2) [OF assms(1), of "pre @ ''-pod''"] assms(4) by (auto simp: x_def)
  have plain: "list_all plain_part p"
    using assms(4) x plain_concrete neutral_plain [OF assms(2)] neutral_plain [OF assms(3)] by (auto simp: p_def)
  have comps: "path_components (path_str p) = p" by (rule path_components_path_str [OF plain]) (simp add: p_def)
  have pos: "position (\<lambda>c. c = ''kubepods.slice'') p = Some (length root)"
    unfolding p_def using neutral_set_ne [OF assms(2)] by (intro position_append) auto
  have skip: "list_all (\<lambda>c. extract_systemd_pod_uid c = None) (root @ ''kubepods.slice'' # mid)"
    "list_all (\<lambda>c. extract_systemd_pod_uid c = None) ls"
    using assms(2,3,4) extract_concrete by (auto simp: list_all_iff neutral_part_def extract_not_slice)
  have "extract_systemd_pod_uid x = Some uid"
    unfolding x_def using assms(4) by (intro extract_pod_uid [OF assms(1)]) auto
  from systemd_pod_uid [OF skip(1) this skip(2)] obtain q cid
    where "systemd_loop p (None, None, None) = (q, Some uid, cid)" by (auto simp: p_def)
  then show ?thesis
    unfolding x_def [symmetric] p_def [symmetric]
    by (simp add: parse_cgroup_path_def path_str_no_backslash [OF plain] parse_systemd_def comps pos Let_def)
qed

text \<open>
  C23. The two directions agree for both cgroup drivers: any path below one of the six
  directories under which the agent looks for a pod is parsed back to that pod's uid, with
  the driver of the directory, whatever the cgroup root and the container names are as long
  as they do not themselves look like pod directories.
\<close>

theorem candidate_pod_dirs_roundtrip:
  assumes "wf_uid uid" "list_all neutral_part root" "list_all neutral_part ls"
    "i < length (candidate_pod_dirs root uid)"
  shows "\<exists>r. parse_cgroup_path (path_str (candidate_pod_dirs root uid ! i @ ls)) = Some r \<and> pcp_pod_uid r = uid \<and>
    pcp_style r = (if i < 3 then Cgroupfs else Systemd)"
proof -
  note ce = candidate_pod_dirs_eq [OF assms(1), of root]
  have "length (candidate_pod_dirs root uid) = 6" unfolding ce by simp
  with assms(4) consider "i = 0" | "i = 1" | "i = 2" | "i = 3" | "i = 4" | "i = 5" by linarith
  then show ?thesis
  proof cases
    case 1 with parse_cgroupfs_pod [OF assms(1-3), of "[]"] show ?thesis unfolding ce by simp
  next
    case 2 with parse_cgroupfs_pod [OF assms(1-3), of "[''burstable'']"] show ?thesis unfolding ce by simp
  next
    case 3 with parse_cgroupfs_pod [OF assms(1-3), of "[''besteffort'']"] show ?thesis unfolding ce by simp
  next
    case 4 with parse_systemd_pod [OF assms(1-3), of "[]" "''kubepods''"] show ?thesis unfolding ce by simp
  next
    case 5
    with parse_systemd_pod [OF assms(1-3), of "[''kubepods-burstable.slice'']" "''kubepods-burstable''"]
    show ?thesis unfolding ce by simp
  next
    case 6
    with parse_systemd_pod [OF assms(1-3), of "[''kubepods-besteffort.slice'']" "''kubepods-besteffort''"]
    show ?thesis unfolding ce by simp
  qed
qed

theorem candidate_pod_dirs_roundtrip_witness:
  "\<exists>r. parse_cgroup_path
         ''/sys/fs/kubepods.slice/kubepods-burstable.slice/kubepods-burstable-pod0a_1b.slice/cri-x.scope'' = Some r \<and>
       pcp_pod_uid r = ''0a-1b''"
proof -
  let ?d = "[''sys'', ''fs'', ''kubepods.slice'', ''kubepods-burstable.slice'', ''kubepods-burstable-pod0a_1b.slice'']"
  have uid: "wf_uid ''0a-1b''" by (simp add: wf_uid_def uid_char_def)
  moreover have "list_all neutral_part [''sys'', ''fs'']" "list_all neutral_part [''cri-x.scope'']"
    by (simp_all add: neutral_part_def plain_part_def ends_with_def)
  moreover have "candidate_pod_dirs [''sys'', ''fs''] ''0a-1b'' ! 4 = ?d" "4 < length (candidate_pod_dirs [''sys'', ''fs''] ''0a-1b'')"
    by (simp_all add: candidate_pod_dirs_eq [OF uid] replace_char_def)
  ultimately have "\<exists>r. parse_cgroup_path (path_str (?d @ [''cri-x.scope''])) = Some r \<and> pcp_pod_uid r = ''0a-1b''"
    using candidate_pod_dirs_roundtrip [of "''0a-1b''" "[''sys'', ''fs'']" "[''cri-x.scope'']" 4] by auto
  then show ?thesis by (simp add: path_str_def)
qed

subsection \<open>The walk finds a directory by its inode\<close>

text \<open>The directories the walk can reach.\<close>

inductive below :: "CgroupFs \<Rightarrow> path \<Rightarrow> path \<Rightarrow> bool" for fs where
  here: "below fs d d"
| down: "fs_read_dir fs d = Some names \<Longrightarrow> n \<in> set names \<Longrightarrow> fs_is_dir fs (d @ [n]) \<Longrightarrow> n \<noteq> ''.'' \<Longrightarrow>
   n \<noteq> ''..'' \<Longrightarrow> below fs (d @ [n]) p \<Longrightarrow> below fs d p"

lemma find_inode_found:
  "find_inode fuel fs dir t = Some (Inr (Some p)) \<Longrightarrow> below fs dir p \<and> fs_ino fs p = Some t"
  "fs_read_dir fs dir = Some all \<Longrightarrow> set ns \<subseteq> set all \<Longrightarrow>
   find_inode_list fuel fs dir ns t = Some (Inr (Some p)) \<Longrightarrow> below fs dir p \<and> fs_ino fs p = Some t"
proof (induction fuel fs dir t and fuel fs dir ns t arbitrary: p and p all rule: find_inode_find_inode_list.induct)
  case (2 fuel fs dir t)
  then show ?case by (auto split: option.splits if_splits intro: here)
next
  case (4 fuel fs dir n ns t)
  show ?case
  proof (cases "\<not> fs_is_dir fs (dir @ [n]) \<or> n = ''.'' \<or> n = ''..''")
    case True
    with 4 show ?thesis by auto
  next
    case False
    show ?thesis
    proof (cases "find_inode fuel fs (dir @ [n]) t")
      case None
      with False "4.prems" show ?thesis by simp
    next
      case (Some r)
      show ?thesis
      proof (cases "r = Inr None")
        case True
        with 4 False Some show ?thesis by simp
      next
        case hit: False
        with False Some "4.prems"(3) have "r = Inr (Some p)"
          by (cases r) (auto split: option.splits)
        with "4.IH"(2) [OF False] Some have "below fs (dir @ [n]) p \<and> fs_ino fs p = Some t" by simp
        with False "4.prems"(1,2) show ?thesis by (auto intro: down)
      qed
    qed
  qed
qed simp_all

lemma find_inode_absent:
  "find_inode fuel fs dir t = Some (Inr None) \<Longrightarrow> below fs dir p \<Longrightarrow> fs_ino fs p \<noteq> Some t"
  "find_inode_list fuel fs dir ns t = Some (Inr None) \<Longrightarrow> n \<in> set ns \<Longrightarrow> fs_is_dir fs (dir @ [n]) \<Longrightarrow>
   n \<noteq> ''.'' \<Longrightarrow> n \<noteq> ''..'' \<Longrightarrow> below fs (dir @ [n]) p \<Longrightarrow> fs_ino fs p \<noteq> Some t"
proof (induction fuel fs dir t and fuel fs dir ns t arbitrary: p and p n rule: find_inode_find_inode_list.induct)
  case (2 fuel fs dir t)
  from "2.prems" obtain ino where ino: "fs_ino fs dir = Some ino" "ino \<noteq> t"
    by (auto split: option.splits if_splits)
  from \<open>below fs dir p\<close> show ?case
  proof (cases rule: below.cases)
    case here
    with ino show ?thesis by simp
  next
    case (down names n)
    with "2.prems"(1) ino have "find_inode_list fuel fs dir names t = Some (Inr None)" by simp
    with "2.IH" [OF ino(1) ino(2) down(1)] down show ?thesis by blast
  qed
next
  case (4 fuel fs dir m ns t)
  show ?case
  proof (cases "\<not> fs_is_dir fs (dir @ [m]) \<or> m = ''.'' \<or> m = ''..''")
    case True
    with 4 show ?thesis by auto
  next
    case False
    with "4.prems"(1) have r: "find_inode fuel fs (dir @ [m]) t = Some (Inr None)"
        "find_inode_list fuel fs dir ns t = Some (Inr None)"
      by (auto split: option.splits sum.splits)
    show ?thesis
    proof (cases "n = m")
      case True
      with "4.IH"(2) [OF False r(1)] "4.prems"(6) show ?thesis by blast
    next
      case other: False
      with "4.IH"(3) [OF False r(1) refl refl r(2)] "4.prems" show ?thesis by simp
    qed
  qed
qed simp_all

lemma find_inode_total:
  "(\<And>q. fuel \<le> length q \<Longrightarrow> \<not> fs_is_dir fs (dir @ q)) \<Longrightarrow> 0 < fuel \<Longrightarrow> find_inode fuel fs dir t \<noteq> None"
  "(\<And>q. Suc fuel \<le> length q \<Longrightarrow> \<not> fs_is_dir fs (dir @ q)) \<Longrightarrow> find_inode_list fuel fs dir ns t \<noteq> None"
proof (induction fuel fs dir t and fuel fs dir ns t rule: find_inode_find_inode_list.induct)
  case (2 fuel fs dir t)
  then show ?case by (auto split: option.splits)
next
  case (4 fuel fs dir n ns t)
  show ?case
  proof (cases "\<not> fs_is_dir fs (dir @ [n]) \<or> n = ''.'' \<or> n = ''..''")
    case True
    with 4 show ?thesis by simp
  next
    case False
    have "0 < fuel" using "4.prems" [of "[n]"] False by (cases fuel) auto
    moreover have "\<not> fs_is_dir fs ((dir @ [n]) @ q)" if "fuel \<le> length q" for q
      using "4.prems" [of "n # q"] that by simp
    ultimately have "find_inode fuel fs (dir @ [n]) t \<noteq> None"
      using "4.IH"(2) [OF False] by blast
    with False 4 show ?thesis by (auto split: sum.splits option.splits)
  qed
qed simp_all

lemma find_inode_error:
  "find_inode fuel fs dir t \<noteq> Some (Inl (NoSuchCgroup c))"
  "find_inode_list fuel fs dir ns t \<noteq> Some (Inl (NoSuchCgroup c))"
  by (induction fuel fs dir t and fuel fs dir ns t rule: find_inode_find_inode_list.induct)
    (auto split: option.splits sum.splits if_splits)

text \<open>
  C24. Resolving a cgroup id walks the whole tree and returns: on a hierarchy less than
  \<open>fuel\<close> levels deep the walk ends; a path it returns is a directory reached from the root whose
  inode is the id; and "no such cgroup" is reported only when no readable directory below
  the root has that inode.
\<close>

theorem path_for_cgroup_id_correct:
  assumes "0 < fuel" "\<And>q. fuel \<le> length q \<Longrightarrow> \<not> fs_is_dir fs (root @ q)"
  shows "\<exists>r. path_for_cgroup_id fuel fs root cg = Some r \<and>
    (\<forall>p. r = Inr p \<longrightarrow> below fs root p \<and> fs_ino fs p = Some cg) \<and>
    (\<forall>p. r = Inl (NoSuchCgroup cg) \<longrightarrow> below fs root p \<longrightarrow> fs_ino fs p \<noteq> Some cg)"
proof (cases "fs_is_dir fs root")
  case True
  obtain x where x: "find_inode fuel fs root cg = Some x"
    using find_inode_total(1) [OF assms(2,1)] by blast
  have no: "x \<noteq> Inl (NoSuchCgroup cg)" using x find_inode_error(1) by blast
  show ?thesis
    using find_inode_found(1) [of fuel fs root cg] find_inode_absent(1) [of fuel fs root cg] x True no
    by (cases x) (auto simp: path_for_cgroup_id_def split: option.splits)
next
  case False
  then show ?thesis by (simp add: path_for_cgroup_id_def)
qed

text \<open>A root with one pod directory, whose inode is 7.\<close>

definition sample_fs :: CgroupFs where
  "sample_fs =
     \<lparr>fs_exists = (\<lambda>p. p \<in> {[], [''pod'']}), fs_is_dir = (\<lambda>p. p \<in> {[], [''pod'']}),
      fs_ino = (\<lambda>p. if p = [] then Some 1 else if p = [''pod''] then Some 7 else None),
      fs_read_dir = (\<lambda>p. if p = [] then Some [''pod''] else if p = [''pod''] then Some [] else None),
      fs_denied = (\<lambda>_. False)\<rparr>"

theorem path_for_cgroup_id_correct_witness:
  "\<exists>r. path_for_cgroup_id (Suc (Suc 0)) sample_fs [] 7 = Some r \<and> r = Inr [''pod''] \<and> below sample_fs [] [''pod'']"
proof -
  have deep: "\<not> fs_is_dir sample_fs ([] @ q)" if "Suc (Suc 0) \<le> length q" for q
    using that by (auto simp: sample_fs_def)
  have run: "path_for_cgroup_id (Suc (Suc 0)) sample_fs [] 7 = Some (Inr [''pod''])"
    by (simp add: path_for_cgroup_id_def sample_fs_def)
  from path_for_cgroup_id_correct [of "Suc (Suc 0)" sample_fs "[]" 7] deep run show ?thesis by auto
qed

subsection \<open>SPIFFE ids\<close>

lemma append_sep_eq: "c \<notin> set a \<Longrightarrow> c \<notin> set b \<Longrightarrow> a @ c # x = b @ c # y \<longleftrightarrow> a = b \<and> x = y"
proof (induction a arbitrary: b)
  case Nil
  then show ?case by (cases b) auto
next
  case (Cons z a)
  then show ?case by (cases b) auto
qed

definition effective_sa :: "string \<Rightarrow> string" where
  "effective_sa sa = (if trim sa = [] then ''default'' else trim sa)"

text \<open>
  C25. Different workloads get different identities: within a trust domain, two namespace and
  service-account pairs without slashes have the same SPIFFE id only if the trimmed namespaces
  agree and the service accounts agree after the empty one is read as \<open>default\<close>.
\<close>

theorem construct_spiffe_id_injective:
  assumes "construct_spiffe_id td ns sa = construct_spiffe_id td ns' sa'"
    "CHR ''/'' \<notin> set (trim ns)" "CHR ''/'' \<notin> set (trim ns')"
  shows "trim ns = trim ns' \<and> effective_sa sa = effective_sa sa'"
proof -
  have "trim ns @ CHR ''/'' # (''sa/'' @ effective_sa sa) = trim ns' @ CHR ''/'' # (''sa/'' @ effective_sa sa')"
    using assms(1) by (simp add: construct_spiffe_id_def effective_sa_def Let_def)
  with append_sep_eq [OF assms(2,3)] show ?thesis by auto
qed

theorem construct_spiffe_id_injective_witness:
  "construct_spiffe_id ''td'' ''prod'' [] = construct_spiffe_id ''td'' ''prod'' ''default'' \<and>
   effective_sa [] = effective_sa ''default''"
proof -
  have t: "trim ''default'' = ''default''" "trim ''prod'' = ''prod''"
    by (rule trim_visible; simp add: visible_def)+
  then have eq: "construct_spiffe_id ''td'' ''prod'' [] = construct_spiffe_id ''td'' ''prod'' ''default''"
    by (simp add: construct_spiffe_id_def)
  from construct_spiffe_id_injective [OF eq] t show ?thesis by (simp add: eq)
qed

end
