(* ===== verification/Pod_Watch.thy ===== *)
theory Pod_Watch
  imports Utf8
begin

section \<open>The pod watch: \<open>identity_correlator/pod_watch.rs\<close>\<close>

text \<open>
  The pods of this node as the correlator sees them, and the decoding of the watch stream of
  the Kubernetes API. A parsed JSON value is an abstract type; the accessors of \<open>serde_json\<close>
  the source calls on it are the fields of \<open>JsonApi\<close>, and its parser is an argument. HTTP
  responses are arguments of the functions that consume them.
\<close>

record ContainerStatusView =
  cs_name :: string
  cs_container_id :: "string option"
  cs_running :: bool

record PodView =
  pod_uid :: string
  pod_namespace :: string
  pod_service_account :: string
  pod_containers :: "ContainerStatusView list"

datatype PodWatchEvent = Upsert PodView | Deleted string

record 'j JsonApi =
  js_pointer :: "'j \<Rightarrow> string \<Rightarrow> 'j option"
  js_get :: "'j \<Rightarrow> string \<Rightarrow> 'j option"
  js_as_str :: "'j \<Rightarrow> string option"
  js_as_array :: "'j \<Rightarrow> 'j list option"

subsection \<open>Pods\<close>

definition str_at :: "'j JsonApi \<Rightarrow> 'j \<Rightarrow> string \<Rightarrow> string option" where
  "str_at api obj p = Option.bind (js_pointer api obj p) (js_as_str api)"

definition or_empty :: "string option \<Rightarrow> string" where
  "or_empty s = (case s of None \<Rightarrow> [] | Some x \<Rightarrow> x)"

definition parse_container_status :: "'j JsonApi \<Rightarrow> 'j \<Rightarrow> ContainerStatusView" where
  "parse_container_status api c =
     \<lparr>cs_name = or_empty (Option.bind (js_get api c ''name'') (js_as_str api)),
      cs_container_id =
        (case Option.bind (js_get api c ''containerID'') (js_as_str api) of
           None \<Rightarrow> None
         | Some s \<Rightarrow> if trim s = [] then None else Some s),
      cs_running = (js_pointer api c ''/state/running'' \<noteq> None)\<rparr>"

definition statuses_at :: "'j JsonApi \<Rightarrow> 'j \<Rightarrow> string \<Rightarrow> ContainerStatusView list" where
  "statuses_at api obj p =
     (case Option.bind (js_pointer api obj p) (js_as_array api) of
        None \<Rightarrow> []
      | Some arr \<Rightarrow> map (parse_container_status api) arr)"

definition parse_pod_view :: "'j JsonApi \<Rightarrow> 'j \<Rightarrow> PodView option" where
  "parse_pod_view api obj =
     (case str_at api obj ''/metadata/uid'' of
        None \<Rightarrow> None
      | Some uid \<Rightarrow>
          Some \<lparr>pod_uid = uid,
                pod_namespace = or_empty (str_at api obj ''/metadata/namespace''),
                pod_service_account = or_empty (str_at api obj ''/spec/serviceAccountName''),
                pod_containers =
                  concat (map (statuses_at api obj)
                    [''/status/containerStatuses'', ''/status/initContainerStatuses'',
                     ''/status/ephemeralContainerStatuses''])\<rparr>)"

text \<open>The uids of a pod list; items without a uid are skipped.\<close>

definition list_pod_uids :: "'j JsonApi \<Rightarrow> 'j list \<Rightarrow> string set" where
  "list_pod_uids api items = set (List.map_filter (\<lambda>item. str_at api item ''/metadata/uid'') items)"

subsection \<open>Lines of the watch stream\<close>

function take_lines :: "bytes \<Rightarrow> bytes list \<times> bytes" where
  "take_lines buf =
     (case position (\<lambda>b. b = 10) buf of
        None \<Rightarrow> ([], buf)
      | Some pos \<Rightarrow>
          (let (lines, rest) = take_lines (drop (pos + 1) buf); line = take pos buf in
           ((if line = [] then lines else line # lines), rest)))"
  by pat_completeness auto
termination
  by (relation "measure length") (auto dest: position_Some)

declare take_lines.simps [simp del]

definition push_chunk :: "bytes \<Rightarrow> bytes \<Rightarrow> bytes list \<times> bytes" where
  "push_chunk buf chunk = take_lines (buf @ chunk)"

datatype 'j WatchEvent = WatchEvent (we_type: string) (we_object: 'j)

definition decode_watch_line ::
  "'j JsonApi \<Rightarrow> (bytes \<Rightarrow> 'j WatchEvent option) \<Rightarrow> bytes \<Rightarrow> (string option \<times> PodWatchEvent option) option" where
  "decode_watch_line api from_slice line =
     (case from_slice line of
        None \<Rightarrow> None
      | Some ev \<Rightarrow>
          (let rv = str_at api (we_object ev) ''/metadata/resourceVersion'';
               event =
                 (if we_type ev = ''ADDED'' \<or> we_type ev = ''MODIFIED''
                  then map_option Upsert (parse_pod_view api (we_object ev))
                  else if we_type ev = ''DELETED''
                  then map_option Deleted (str_at api (we_object ev) ''/metadata/uid'')
                  else None)
           in Some (rv, event)))"

text \<open>
  Consuming the lines of one chunk: the resource version follows the last line that has one,
  and every event is sent; \<open>open_tx n\<close> says whether the receiver still takes the n-th event.
  The flag of the result is the early return on a closed channel.
\<close>

fun consume_lines ::
  "'j JsonApi \<Rightarrow> (bytes \<Rightarrow> 'j WatchEvent option) \<Rightarrow> (nat \<Rightarrow> bool) \<Rightarrow> bytes list \<Rightarrow> string \<times> PodWatchEvent list
   \<Rightarrow> bool \<times> string \<times> PodWatchEvent list" where
  "consume_lines api fs open_tx [] (rv, sent) = (False, rv, sent)"
| "consume_lines api fs open_tx (l # ls) (rv, sent) =
     (case decode_watch_line api fs l of
        None \<Rightarrow> consume_lines api fs open_tx ls (rv, sent)
      | Some (rv', ev) \<Rightarrow>
          (let rv = (case rv' of Some r \<Rightarrow> r | None \<Rightarrow> rv) in
           case ev of
             None \<Rightarrow> consume_lines api fs open_tx ls (rv, sent)
           | Some e \<Rightarrow>
               if open_tx (length sent) then consume_lines api fs open_tx ls (rv, sent @ [e])
               else (True, rv, sent)))"

text \<open>A chunk is bytes or the error that ends the stream; the flag tells a stream error.\<close>

fun consume_watch_byte_stream ::
  "'j JsonApi \<Rightarrow> (bytes \<Rightarrow> 'j WatchEvent option) \<Rightarrow> (nat \<Rightarrow> bool) \<Rightarrow> (unit + bytes) list \<Rightarrow> bytes
   \<Rightarrow> string \<times> PodWatchEvent list \<Rightarrow> bool \<times> string \<times> PodWatchEvent list" where
  "consume_watch_byte_stream api fs open_tx [] buf (rv, sent) = (False, rv, sent)"
| "consume_watch_byte_stream api fs open_tx (Inl _ # cs) buf (rv, sent) = (True, rv, sent)"
| "consume_watch_byte_stream api fs open_tx (Inr chunk # cs) buf (rv, sent) =
     (let (lines, buf') = push_chunk buf chunk in
      case consume_lines api fs open_tx lines (rv, sent) of
        (True, st) \<Rightarrow> (False, st)
      | (False, st) \<Rightarrow> consume_watch_byte_stream api fs open_tx cs buf' st)"

subsection \<open>The watch loop\<close>

datatype watch_response = WatchFailed | WatchStatus nat | WatchStream "(unit + bytes) list"

datatype watch_outcome = WatchAgain | WatchExit

text \<open>One round of \<open>watch_loop\<close> after the response to its request.\<close>

definition watch_round ::
  "'j JsonApi \<Rightarrow> (bytes \<Rightarrow> 'j WatchEvent option) \<Rightarrow> (nat \<Rightarrow> bool) \<Rightarrow> watch_response \<Rightarrow> string \<times> PodWatchEvent list
   \<Rightarrow> watch_outcome \<times> string \<times> PodWatchEvent list" where
  "watch_round api fs open_tx resp st =
     (case resp of
        WatchFailed \<Rightarrow> (WatchExit, st)
      | WatchStatus code \<Rightarrow> if code = 410 then (WatchAgain, ''0'', snd st) else (WatchExit, st)
      | WatchStream chunks \<Rightarrow>
          (case consume_watch_byte_stream api fs open_tx chunks [] st of
             (True, st') \<Rightarrow> (WatchExit, st') | (False, st') \<Rightarrow> (WatchAgain, st')))"

subsection \<open>Names and texts\<close>

text \<open>
  A Rust \<open>char\<close> is a code point; \<open>c as u8\<close> keeps its low byte.
\<close>

definition hex_digit :: "nat \<Rightarrow> char" where
  "hex_digit n = ''0123456789ABCDEF'' ! n"

definition selector_safe :: "nat \<Rightarrow> bool" where
  "selector_safe c \<longleftrightarrow>
     65 \<le> c \<and> c \<le> 90 \<or> 97 \<le> c \<and> c \<le> 122 \<or> 48 \<le> c \<and> c \<le> 57 \<or> c = 45 \<or> c = 95 \<or> c = 46 \<or> c = 61"

definition encode_char :: "nat \<Rightarrow> string" where
  "encode_char c =
     (if selector_safe c then [char_of c]
      else (let b = c mod 256 in [CHR ''%'', hex_digit (b div 16), hex_digit (b mod 16)]))"

definition urlencoding_field_selector :: "string \<Rightarrow> string" where
  "urlencoding_field_selector node_name =
     concat (map encode_char (chars_of (''spec.nodeName='' @ node_name)))"

definition is_control :: "nat \<Rightarrow> bool" where
  "is_control c \<longleftrightarrow> c < 32 \<or> 127 \<le> c \<and> c < 160"

datatype node_name_error = EmptyNodeName | IllegalNodeName

definition validate_node_name :: "string \<Rightarrow> node_name_error + unit" where
  "validate_node_name nm =
     (if trim nm = [] then Inl EmptyNodeName
      else if list_ex (\<lambda>c. is_control c \<or> c = 44) (chars_of (trim nm)) then Inl IllegalNodeName
      else Inr ())"

text \<open>Cutting an error body for a message; \<open>None\<close> is the panic of a slice inside a character.\<close>

definition truncate :: "string \<Rightarrow> nat \<Rightarrow> string option" where
  "truncate s m =
     (if length s \<le> m then Some s
      else if is_char_boundary s m then Some (take m s @ bytes_str [0xE2, 0x80, 0xA6])
      else None)"

subsection \<open>Chunking does not matter\<close>

text \<open>
  The reference: cut the whole text at its newlines; every piece but the last is a line, the
  empty ones are dropped, and the last piece is what remains in the buffer.
\<close>

definition complete_lines :: "bytes \<Rightarrow> bytes list" where
  "complete_lines s = filter (\<lambda>l. l \<noteq> []) (butlast (split_on 10 s))"

definition partial_line :: "bytes \<Rightarrow> bytes" where
  "partial_line s = last (split_on 10 s)"

lemma split_on_append2: "split_on c (a @ b) = butlast (split_on c a) @ split_on c (last (split_on c a) @ b)"
proof (induction a)
  case (Cons x a)
  obtain p ps where s: "split_on c a = p # ps" by (cases "split_on c a") auto
  show ?case
  proof (cases "x = c")
    case True
    with Cons s show ?thesis by simp
  next
    case False
    with Cons s show ?thesis
      by (cases ps) (auto split: list.splits)
  qed
qed simp

lemma take_lines_eq: "take_lines buf = (complete_lines buf, partial_line buf)"
proof (induction buf rule: take_lines.induct)
  case (1 buf)
  show ?case
  proof (cases "position (\<lambda>b. b = 10) buf")
    case None
    then have "split_on 10 buf = [buf]"
      by (intro split_on_no_sep) (auto simp: position_None)
    with None show ?thesis by (subst take_lines.simps) (simp add: complete_lines_def partial_line_def)
  next
    case (Some pos)
    note p = position_Some [OF Some]
    have nosep: "10 \<notin> set (take pos buf)"
      using p by (auto simp: in_set_conv_nth)
    have "buf = take pos buf @ 10 # drop (pos + 1) buf"
      using p by (metis Suc_eq_plus1 id_take_nth_drop)
    then have s: "split_on 10 buf = take pos buf # split_on 10 (drop (pos + 1) buf)"
      using split_on_append [OF nosep, of "drop (pos + 1) buf"] by simp
    from 1 [OF Some] s Some show ?thesis
      by (subst take_lines.simps) (simp add: complete_lines_def partial_line_def Let_def)
  qed
qed

lemma partial_line_no_newline: "10 \<notin> set (partial_line s)"
proof (induction s)
  case (Cons x s)
  then show ?case by (auto simp: partial_line_def split: list.splits)
qed (simp add: partial_line_def)

lemma complete_lines_append:
  "complete_lines (a @ b) = complete_lines a @ complete_lines (partial_line a @ b)"
  by (simp add: complete_lines_def partial_line_def split_on_append2 [of 10 a b] butlast_append)

lemma complete_lines_no_newline: "10 \<notin> set buf \<Longrightarrow> complete_lines buf = []"
  by (simp add: complete_lines_def split_on_no_sep)

lemma consume_lines_append:
  "consume_lines api fs open_tx (a @ b) st =
     (case consume_lines api fs open_tx a st of
        (True, st') \<Rightarrow> (True, st') | (False, st') \<Rightarrow> consume_lines api fs open_tx b st')"
proof (induction a arbitrary: st)
  case Nil
  then show ?case by (cases st) simp
next
  case (Cons l a)
  obtain rv sent where "st = (rv, sent)" by (cases st)
  with Cons.IH show ?case by (auto simp: Let_def split: option.splits)
qed

text \<open>
  C26. What the watch sends does not depend on how the HTTP body is cut into chunks: consuming
  the chunks one by one ends with the resource version and the events of consuming, in order,
  the complete non-empty lines of the whole body; the text after its last newline has no effect.
\<close>

theorem watch_stream_chunking:
  "consume_watch_byte_stream api fs open_tx (map Inr cs) [] st =
     (False, snd (consume_lines api fs open_tx (complete_lines (concat cs)) st))"
proof -
  have "10 \<notin> set buf \<Longrightarrow>
      consume_watch_byte_stream api fs open_tx (map Inr cs) buf st =
        (False, snd (consume_lines api fs open_tx (complete_lines (buf @ concat cs)) st))" for buf
  proof (induction cs arbitrary: buf st)
    case Nil
    then show ?case by (cases st) (simp add: complete_lines_no_newline)
  next
    case (Cons c cs)
    obtain rv sent where st: "st = (rv, sent)" by (cases st)
    obtain stop st' where r: "consume_lines api fs open_tx (complete_lines (buf @ c)) (rv, sent) = (stop, st')"
      by (metis surj_pair)
    have "complete_lines (buf @ c @ concat cs) =
        complete_lines (buf @ c) @ complete_lines (partial_line (buf @ c) @ concat cs)"
      using complete_lines_append [of "buf @ c" "concat cs"] by simp
    with r Cons.IH [OF partial_line_no_newline, of "buf @ c" st'] show ?case
      by (cases stop) (simp_all add: st push_chunk_def take_lines_eq consume_lines_append)
  qed
  from this [of "[]"] show ?thesis by simp
qed

text \<open>
  C27. Cutting an error body for a log message panics on well-formed text: the slice at byte 500
  falls inside a character whenever that byte continues one, as in 499 letters followed by a
  two-byte character.
\<close>

theorem truncate_panics_inside_character:
  "\<exists>body. utf8_valid (str_bytes body) \<and> truncate body 500 = None"
proof (intro exI conjI)
  let ?body = "replicate 499 CHR ''a'' @ bytes_str [0xC3, 0xA9]"
  have tail: "utf8_valid [0xC3, 0xA9 :: u8]"
    by code_simp
  have "utf8_valid (replicate n 97 @ [0xC3, 0xA9 :: u8])" for n
    by (induction n) (simp_all add: tail utf8_valid_ascii_Cons)
  then show "utf8_valid (str_bytes ?body)"
    by (simp only: str_bytes_append str_bytes_bytes_str) (simp add: str_bytes_def)
  have at: "?body ! 500 = char_of (unat (0xA9 :: u8))"
    by (simp only: nth_append length_replicate) (simp add: bytes_str_def)
  have cont: "is_cont (of_char (?body ! 500))"
    unfolding at of_char_char_of_unat by (simp add: is_cont_def)
  have len: "length ?body = 501"
    by (simp only: length_append length_replicate length_bytes_str) simp
  have "\<not> is_char_boundary ?body 500"
    using cont unfolding is_char_boundary_def len by simp
  then show "truncate ?body 500 = None"
    unfolding truncate_def len by simp
qed

end
