(* ===== verification/Bpf_Maps.thy ===== *)
theory Bpf_Maps
  imports Common_Abi
begin

section \<open>The BPF maps the agent and the LSM program share\<close>

text \<open>
  The maps declared by \<open>apps/agent-ebpf-sensor/ebpf/src/main.rs\<close> and written by the agent.
  An array map is the list of its slots, a hash map a partial function. The agent reaches
  them through aya, one system call per write; whether the n-th call of a run is refused,
  and with which error number, is the argument \<open>faults\<close> of every operation, so a theorem that holds
  for every \<open>faults\<close> holds for a write that fails or an agent that dies at any point. The
  LSM program reads the same maps between any two calls.
\<close>

datatype map_error = KeyNotFound | OutOfBounds | SyscallError nat

type_synonym faults = "nat \<Rightarrow> nat option"

record KernelMaps =
  km_tick :: nat
  PATH_DENY_LIST :: "PathDenyEntry list"
  PATH_DENY_COUNT :: "u32 list"
  ID_ALLOW_CGROUP :: "u64 \<Rightarrow> u8 option"
  ID_EXCEPT_VALID :: "u8 list"
  TELEMETRY_STATS :: "TelemetryHealthStats list"
  TELEM_RINGBUF :: "ExecEvent list"

text \<open>The sizes with which the program declares its array maps.\<close>

definition wf_maps :: "KernelMaps \<Rightarrow> bool" where
  "wf_maps k \<longleftrightarrow>
     length (PATH_DENY_LIST k) = PATH_DENY_MAX_ENTRIES \<and> length (PATH_DENY_COUNT k) = 1 \<and>
     length (ID_EXCEPT_VALID k) = 1 \<and> length (TELEMETRY_STATS k) = 1"

text \<open>The state in which the kernel creates the maps: zeroed arrays, empty hash.\<close>

definition fresh_maps :: KernelMaps where
  "fresh_maps =
     \<lparr>km_tick = 0, PATH_DENY_LIST = replicate PATH_DENY_MAX_ENTRIES path_deny_entry_default,
      PATH_DENY_COUNT = [0], ID_ALLOW_CGROUP = (\<lambda>_. None), ID_EXCEPT_VALID = [0],
      TELEMETRY_STATS = [\<lparr>events_processed = 0, lost_events_count = 0\<rparr>], TELEM_RINGBUF = []\<rparr>"

lemma wf_fresh_maps [simp]: "wf_maps fresh_maps"
  by (simp add: wf_maps_def fresh_maps_def)

subsection \<open>Lookups and writes\<close>

definition array_get :: "'v list \<Rightarrow> nat \<Rightarrow> 'v option" where
  "array_get xs i = (if i < length xs then Some (xs ! i) else None)"

definition array_set :: "nat \<Rightarrow> 'v \<Rightarrow> 'v list \<Rightarrow> map_error + 'v list" where
  "array_set i v xs = (if i < length xs then Inr (xs[i := v]) else Inl OutOfBounds)"

text \<open>One system call: it is counted, and either refused or performed.\<close>

definition map_call ::
  "faults \<Rightarrow> (KernelMaps \<Rightarrow> map_error + KernelMaps) \<Rightarrow> KernelMaps \<Rightarrow> (map_error + unit) \<times> KernelMaps" where
  "map_call flt f k =
     (let k' = k\<lparr>km_tick := Suc (km_tick k)\<rparr> in
      case flt (km_tick k) of
        Some errno \<Rightarrow> (Inl (SyscallError errno), k')
      | None \<Rightarrow> (case f k' of Inl e \<Rightarrow> (Inl e, k') | Inr k'' \<Rightarrow> (Inr (), k'')))"

definition deny_list_set :: "faults \<Rightarrow> nat \<Rightarrow> PathDenyEntry \<Rightarrow> KernelMaps \<Rightarrow> (map_error + unit) \<times> KernelMaps" where
  "deny_list_set flt i e =
     map_call flt (\<lambda>k. map_sum id (\<lambda>xs. k\<lparr>PATH_DENY_LIST := xs\<rparr>) (array_set i e (PATH_DENY_LIST k)))"

definition deny_count_set :: "faults \<Rightarrow> nat \<Rightarrow> u32 \<Rightarrow> KernelMaps \<Rightarrow> (map_error + unit) \<times> KernelMaps" where
  "deny_count_set flt i c =
     map_call flt (\<lambda>k. map_sum id (\<lambda>xs. k\<lparr>PATH_DENY_COUNT := xs\<rparr>) (array_set i c (PATH_DENY_COUNT k)))"

definition except_valid_set :: "faults \<Rightarrow> nat \<Rightarrow> u8 \<Rightarrow> KernelMaps \<Rightarrow> (map_error + unit) \<times> KernelMaps" where
  "except_valid_set flt i v =
     map_call flt (\<lambda>k. map_sum id (\<lambda>xs. k\<lparr>ID_EXCEPT_VALID := xs\<rparr>) (array_set i v (ID_EXCEPT_VALID k)))"

definition allow_cgroup_insert :: "faults \<Rightarrow> u64 \<Rightarrow> u8 \<Rightarrow> KernelMaps \<Rightarrow> (map_error + unit) \<times> KernelMaps" where
  "allow_cgroup_insert flt cg v =
     map_call flt (\<lambda>k. Inr (k\<lparr>ID_ALLOW_CGROUP := (ID_ALLOW_CGROUP k)(cg \<mapsto> v)\<rparr>))"

definition allow_cgroup_remove :: "faults \<Rightarrow> u64 \<Rightarrow> KernelMaps \<Rightarrow> (map_error + unit) \<times> KernelMaps" where
  "allow_cgroup_remove flt cg =
     map_call flt (\<lambda>k. if ID_ALLOW_CGROUP k cg = None then Inl KeyNotFound
                       else Inr (k\<lparr>ID_ALLOW_CGROUP := (ID_ALLOW_CGROUP k)(cg := None)\<rparr>))"

lemmas map_ops = deny_list_set_def deny_count_set_def except_valid_set_def
  allow_cgroup_insert_def allow_cgroup_remove_def

text \<open>
  The write loops of the agent: check the value, write the slot, stop at the first failure.
\<close>

datatype store_error = BadValue nat | WriteFailed nat

fun store_slots ::
  "('v \<Rightarrow> bool) \<Rightarrow> (nat \<Rightarrow> 'v \<Rightarrow> 'm \<Rightarrow> (map_error + unit) \<times> 'm) \<Rightarrow> (nat \<times> 'v) list \<Rightarrow> 'm
   \<Rightarrow> (store_error + unit) \<times> 'm" where
  "store_slots chk put [] m = (Inr (), m)"
| "store_slots chk put ((i, v) # rest) m =
     (if \<not> chk v then (Inl (BadValue i), m)
      else (case put i v m of
              (Inl _, m') \<Rightarrow> (Inl (WriteFailed i), m')
            | (Inr _, m') \<Rightarrow> store_slots chk put rest m'))"

subsection \<open>What a write promises\<close>

text \<open>
  The contract of an array map as its clients see it: a successful write changes its slot
  and no other, a refused write changes none, and neither touches the rest of the kernel
  state, which \<open>rest\<close> projects.
\<close>

locale bpf_array =
  fixes get :: "'m \<Rightarrow> nat \<Rightarrow> 'v option"
    and put :: "faults \<Rightarrow> nat \<Rightarrow> 'v \<Rightarrow> 'm \<Rightarrow> (map_error + unit) \<times> 'm"
    and rest :: "'m \<Rightarrow> 'r"
  assumes put_ok: "put flt i v m = (Inr u, m') \<Longrightarrow>
                     get m i \<noteq> None \<and> get m' = (get m)(i := Some v)"
    and put_refused: "put flt i v m = (Inl e, m') \<Longrightarrow> get m' = get m"
    and put_rest: "put flt i v m = (r, m') \<Longrightarrow> rest m' = rest m"
    and put_progress: "get m i \<noteq> None \<Longrightarrow> (\<And>t. flt t = None) \<Longrightarrow> \<exists>m'. put flt i v m = (Inr (), m')"
begin

lemma store_rest: "store_slots chk (put flt) xs m = (r, m') \<Longrightarrow> rest m' = rest m"
proof (induction xs arbitrary: m)
  case (Cons x xs)
  then show ?case
    by (cases x) (auto split: if_splits prod.splits sum.splits dest: put_rest)
qed simp

lemma store_ok:
  "store_slots chk (put flt) xs m = (Inr u, m') \<Longrightarrow> distinct (map fst xs) \<Longrightarrow>
   (\<forall>v \<in> snd ` set xs. chk v) \<and> (\<forall>i \<in> fst ` set xs. get m i \<noteq> None) \<and>
   get m' = (\<lambda>j. case map_of xs j of Some v \<Rightarrow> Some v | None \<Rightarrow> get m j)"
proof (induction xs arbitrary: m)
  case (Cons x xs)
  obtain i v where x: "x = (i, v)" by force
  from Cons.prems(1) obtain m1 where chk: "chk v" and s: "put flt i v m = (Inr (), m1)"
    and r: "store_slots chk (put flt) xs m1 = (Inr u, m')"
    by (auto simp: x split: if_splits prod.splits sum.splits)
  from put_ok [OF s] have g: "get m i \<noteq> None" "get m1 = (get m)(i := Some v)" by auto
  have fresh: "map_of xs i = None"
    using Cons.prems(2) by (auto simp: x map_of_eq_None_iff)
  from Cons.IH [OF r] Cons.prems(2) fresh chk g x show ?case
    by (auto simp: fun_eq_iff split: option.splits if_splits)
qed simp

lemma store_old_or_new:
  "store_slots chk (put flt) xs m = (r, m') \<Longrightarrow> distinct (map fst xs) \<Longrightarrow>
   get m' j = get m j \<or> (\<exists>v. map_of xs j = Some v \<and> get m' j = Some v)"
proof (induction xs arbitrary: m)
  case (Cons x xs)
  obtain i v where x: "x = (i, v)" by force
  have fresh: "map_of xs i = None"
    using Cons.prems(2) by (auto simp: x map_of_eq_None_iff)
  obtain r1 m1 where s: "put flt i v m = (r1, m1)" by fastforce
  show ?case
  proof (cases "chk v")
    case True
    show ?thesis
    proof (cases r1)
      case (Inl e)
      with Cons.prems True s put_refused [OF s [unfolded Inl]] show ?thesis by (auto simp: x)
    next
      case (Inr u)
      with Cons.IH [of m1] Cons.prems True s fresh put_ok [OF s [unfolded Inr]] show ?thesis
        by (auto simp: x split: if_splits)
    qed
  qed (use Cons.prems x in simp)
qed simp

lemma store_dom:
  "store_slots chk (put flt) xs m = (r, m') \<Longrightarrow> get m' j = None \<longleftrightarrow> get m j = None"
proof (induction xs arbitrary: m)
  case (Cons x xs)
  obtain i v where x: "x = (i, v)" by force
  obtain r1 m1 where s: "put flt i v m = (r1, m1)" by fastforce
  have "get m1 j = None \<longleftrightarrow> get m j = None"
    using s put_ok [of flt i v m _ m1] put_refused [of flt i v m _ m1] by (cases r1) auto
  with Cons s show ?case
    by (cases r1) (auto simp: x split: if_splits)
qed simp

lemma store_progress:
  "(\<And>t. flt t = None) \<Longrightarrow> \<forall>(i, v) \<in> set xs. chk v \<and> get m i \<noteq> None \<Longrightarrow>
   \<exists>m'. store_slots chk (put flt) xs m = (Inr (), m')"
proof (induction xs arbitrary: m)
  case (Cons x xs)
  obtain i v where x: "x = (i, v)" by force
  from Cons.prems put_progress [of m i flt v] obtain m1 where s: "put flt i v m = (Inr (), m1)"
    by (auto simp: x)
  have "\<forall>(i, v) \<in> set xs. chk v \<and> get m1 i \<noteq> None"
    using Cons.prems(2) put_ok [OF s] by auto
  from Cons.IH [OF Cons.prems(1) this] s Cons.prems(2) show ?case by (auto simp: x)
qed simp

end

text \<open>
  The contract of the hash map of excepted cgroups, for the components that insert and
  remove single keys.
\<close>

locale bpf_hash =
  fixes get :: "'m \<Rightarrow> 'k \<Rightarrow> 'v option"
    and insert :: "faults \<Rightarrow> 'k \<Rightarrow> 'v \<Rightarrow> 'm \<Rightarrow> (map_error + unit) \<times> 'm"
    and remove :: "faults \<Rightarrow> 'k \<Rightarrow> 'm \<Rightarrow> (map_error + unit) \<times> 'm"
    and rest :: "'m \<Rightarrow> 'r"
  assumes insert_ok: "insert flt x v m = (Inr u, m') \<Longrightarrow> get m' = (get m)(x \<mapsto> v)"
    and insert_refused: "insert flt x v m = (Inl e, m') \<Longrightarrow> get m' = get m"
    and insert_rest: "insert flt x v m = (r, m') \<Longrightarrow> rest m' = rest m"
    and remove_ok: "remove flt x m = (Inr u, m') \<Longrightarrow> get m' = (get m)(x := None)"
    and remove_refused: "remove flt x m = (Inl e, m') \<Longrightarrow> get m' = get m"
    and remove_rest: "remove flt x m = (r, m') \<Longrightarrow> rest m' = rest m"
begin

lemma remove_subset: "remove flt x m = (r, m') \<Longrightarrow> get m' \<subseteq>\<^sub>m get m"
  by (cases r) (auto simp: map_le_def fun_upd_apply dest!: remove_ok remove_refused split: if_splits)

lemma insert_other: "insert flt x v m = (r, m') \<Longrightarrow> y \<noteq> x \<Longrightarrow> get m' y = get m y"
  by (cases r) (auto dest: insert_ok insert_refused)

lemma insert_dom: "insert flt x v m = (r, m') \<Longrightarrow> dom (get m') \<subseteq> Set.insert x (dom (get m))"
  by (cases r) (auto dest: insert_ok insert_refused)

end

interpretation deny_list: bpf_array "\<lambda>k. array_get (PATH_DENY_LIST k)" deny_list_set
  "\<lambda>k. (PATH_DENY_COUNT k, ID_ALLOW_CGROUP k, ID_EXCEPT_VALID k, TELEMETRY_STATS k, TELEM_RINGBUF k)"
  by unfold_locales
    (auto simp: deny_list_set_def map_call_def array_set_def array_get_def fun_eq_iff Let_def
      split: option.splits if_splits)

interpretation deny_count: bpf_array "\<lambda>k. array_get (PATH_DENY_COUNT k)" deny_count_set
  "\<lambda>k. (PATH_DENY_LIST k, ID_ALLOW_CGROUP k, ID_EXCEPT_VALID k, TELEMETRY_STATS k, TELEM_RINGBUF k)"
  by unfold_locales
    (auto simp: deny_count_set_def map_call_def array_set_def array_get_def fun_eq_iff Let_def
      split: option.splits if_splits)

interpretation except_valid: bpf_array "\<lambda>k. array_get (ID_EXCEPT_VALID k)" except_valid_set
  "\<lambda>k. (PATH_DENY_LIST k, PATH_DENY_COUNT k, ID_ALLOW_CGROUP k, TELEMETRY_STATS k, TELEM_RINGBUF k)"
  by unfold_locales
    (auto simp: except_valid_set_def map_call_def array_set_def array_get_def fun_eq_iff Let_def
      split: option.splits if_splits)

interpretation allow_cgroup: bpf_hash ID_ALLOW_CGROUP allow_cgroup_insert allow_cgroup_remove
  "\<lambda>k. (PATH_DENY_LIST k, PATH_DENY_COUNT k, ID_EXCEPT_VALID k, TELEMETRY_STATS k, TELEM_RINGBUF k)"
  by unfold_locales
    (auto simp: allow_cgroup_insert_def allow_cgroup_remove_def map_call_def fun_eq_iff Let_def
      split: option.splits if_splits)

lemma array_get_simps [simp]:
  "array_get xs i = None \<longleftrightarrow> length xs \<le> i"
  "i < length xs \<Longrightarrow> array_get xs i = Some (xs ! i)"
  by (simp_all add: array_get_def not_less)

lemma array_get_ext: "array_get xs = array_get ys \<longleftrightarrow> xs = ys"
proof
  assume eq: "array_get xs = array_get ys"
  have "length xs = length ys"
    by (metis array_get_simps(1) eq linorder_le_cases order_antisym order_refl)
  moreover have "xs ! i = ys ! i" if "i < length xs" for i
    using fun_cong [OF eq, of i] that calculation by simp
  ultimately show "xs = ys" by (rule nth_equalityI)
qed simp

end
