(* ===== verification/Identity_Allow.thy ===== *)
theory Identity_Allow
  imports Bpf_Maps
begin

section \<open>Identity exceptions: \<open>apps/agent-ebpf-sensor/src/identity_allow.rs\<close>\<close>

text \<open>
  The parse of a policy bundle, the validity of its identity section, the freshness flag
  \<open>ID_EXCEPT_VALID\<close> and the cgroups of \<open>ID_ALLOW_CGROUP\<close>. \<open>serde_json\<close> and \<open>chrono\<close> are the
  arguments \<open>from_json\<close> and \<open>rfc3339\<close>; the clock is the argument \<open>now\<close>.
\<close>

definition IDENTITY_EXCEPTION_TTL :: duration where "IDENTITY_EXCEPTION_TTL = from_secs 90"
definition REQUIRED_SCOPE_PATH_PREFIX :: string where "REQUIRED_SCOPE_PATH_PREFIX = ''/tmp/''"

record IdentityAllowSection =
  ias_scope_path_prefix :: string
  ias_spiffe_ids :: "string list"
  ias_issued_at :: system_time
  ias_expires_at :: system_time

text \<open>The reasons of an invalid section, one per return of the source.\<close>

datatype invalid_reason =
  WrongScope string | ScopeConstantMismatch | ExpiresNotAfterIssued | Expired system_time
  | MissingIdentity u32 | SchemaOneHasNone | UnreachableSchema

datatype IdentitySectionValidity = Fresh IdentityAllowSection | Invalid invalid_reason

record ParsedPolicyBundle =
  ppb_schema_version :: u32
  ppb_version :: string
  ppb_deny_path_prefixes :: "string list"
  ppb_identity :: IdentitySectionValidity
  ppb_not_before :: "system_time option"
  ppb_not_after :: "system_time option"

record IdentityDoc =
  id_scope_path_prefix :: string
  id_spiffe_ids :: "string list"
  id_issued_at :: string
  id_expires_at :: string

record BundleDoc =
  bd_schema_version :: u32
  bd_version :: string
  bd_deny_path_prefixes :: "string list"
  bd_identity_allow_exceptions :: "IdentityDoc option"
  bd_not_before :: "string option"
  bd_not_after :: "string option"

datatype bundle_error =
  MalformedJson | UnsupportedSchema u32 | MissingVersion | EmptyDenyList | BadTimestamp string

subsection \<open>Parsing\<close>

definition parse_rfc3339 :: "(string \<Rightarrow> system_time option) \<Rightarrow> string \<Rightarrow> bundle_error + system_time" where
  "parse_rfc3339 rfc3339 s = ok_or (rfc3339 s) (BadTimestamp s)"

definition evaluate_identity_section ::
  "string \<Rightarrow> string list \<Rightarrow> system_time \<Rightarrow> system_time \<Rightarrow> system_time \<Rightarrow> IdentitySectionValidity" where
  "evaluate_identity_section scope spiffe_ids issued_at expires_at now =
     (if scope \<noteq> REQUIRED_SCOPE_PATH_PREFIX then Invalid (WrongScope scope)
      else if str_bytes REQUIRED_SCOPE_PATH_PREFIX \<noteq> IDENTITY_EXCEPTION_SCOPE_PREFIX
      then Invalid ScopeConstantMismatch
      else if expires_at \<le> issued_at then Invalid ExpiresNotAfterIssued
      else if expires_at \<le> now then Invalid (Expired expires_at)
      else Fresh \<lparr>ias_scope_path_prefix = scope, ias_spiffe_ids = spiffe_ids,
                  ias_issued_at = issued_at, ias_expires_at = expires_at\<rparr>)"

text \<open>An optional timestamp: trimmed, and absent when blank.\<close>

definition parse_bound ::
  "(string \<Rightarrow> system_time option) \<Rightarrow> string option \<Rightarrow> bundle_error + system_time option" where
  "parse_bound rfc3339 f =
     (case f of
        None \<Rightarrow> Inr None
      | Some s \<Rightarrow> (if trim s = [] then Inr None
                   else and_then (parse_rfc3339 rfc3339 (trim s)) (\<lambda>t. Inr (Some t))))"

definition identity_of_doc ::
  "(string \<Rightarrow> system_time option) \<Rightarrow> u32 \<Rightarrow> IdentityDoc option \<Rightarrow> system_time \<Rightarrow>
   bundle_error + IdentitySectionValidity" where
  "identity_of_doc rfc3339 schema doc now =
     (if schema = 2 \<or> schema = 3 then
        (case doc of
           Some ie \<Rightarrow>
             and_then (parse_rfc3339 rfc3339 (id_issued_at ie)) (\<lambda>issued.
             and_then (parse_rfc3339 rfc3339 (id_expires_at ie)) (\<lambda>expires.
             Inr (evaluate_identity_section (id_scope_path_prefix ie) (id_spiffe_ids ie)
                    issued expires now)))
         | None \<Rightarrow> Inr (Invalid (MissingIdentity schema)))
      else if schema = 1 then Inr (Invalid SchemaOneHasNone)
      else Inr (Invalid UnreachableSchema))"

definition parse_policy_bundle_json_at ::
  "(string \<Rightarrow> BundleDoc option) \<Rightarrow> (string \<Rightarrow> system_time option) \<Rightarrow> string \<Rightarrow> system_time \<Rightarrow>
   bundle_error + ParsedPolicyBundle" where
  "parse_policy_bundle_json_at from_json rfc3339 body now =
     and_then (ok_or (from_json body) MalformedJson) (\<lambda>doc.
     if bd_schema_version doc \<noteq> 1 \<and> bd_schema_version doc \<noteq> 2 \<and> bd_schema_version doc \<noteq> 3
     then Inl (UnsupportedSchema (bd_schema_version doc))
     else if bd_version doc = [] then Inl MissingVersion
     else if bd_deny_path_prefixes doc = [] then Inl EmptyDenyList
     else
       and_then (parse_bound rfc3339 (bd_not_before doc)) (\<lambda>not_before.
       and_then (parse_bound rfc3339 (bd_not_after doc)) (\<lambda>not_after.
       and_then (identity_of_doc rfc3339 (bd_schema_version doc)
                   (bd_identity_allow_exceptions doc) now) (\<lambda>identity.
       Inr \<lparr>ppb_schema_version = bd_schema_version doc, ppb_version = bd_version doc,
            ppb_deny_path_prefixes = bd_deny_path_prefixes doc, ppb_identity = identity,
            ppb_not_before = not_before, ppb_not_after = not_after\<rparr>))))"

subsection \<open>The maps\<close>

definition set_exceptions_valid :: "faults \<Rightarrow> bool \<Rightarrow> KernelMaps \<Rightarrow> (map_error + unit) \<times> KernelMaps" where
  "set_exceptions_valid flt fresh k =
     (let v = (if fresh then IDENTITY_EXCEPTIONS_VALID_FRESH else IDENTITY_EXCEPTIONS_VALID_STALE) in
      except_valid_set flt 0 v k)"

definition seed_allow_cgroup :: "faults \<Rightarrow> u64 \<Rightarrow> KernelMaps \<Rightarrow> (map_error + unit) \<times> KernelMaps" where
  "seed_allow_cgroup flt cgroup_id k = allow_cgroup_insert flt cgroup_id IDENTITY_ALLOW_VALUE k"

definition remove_allow_cgroup :: "faults \<Rightarrow> u64 \<Rightarrow> KernelMaps \<Rightarrow> (map_error + unit) \<times> KernelMaps" where
  "remove_allow_cgroup flt cgroup_id k =
     (case allow_cgroup_remove flt cgroup_id k of
        (Inr _, k') \<Rightarrow> (Inr (), k')
      | (Inl e, k') \<Rightarrow> if e = KeyNotFound then (Inr (), k') else (Inl e, k'))"

definition apply_identity_validity ::
  "faults \<Rightarrow> IdentitySectionValidity \<Rightarrow> KernelMaps \<Rightarrow> (map_error + unit) \<times> KernelMaps" where
  "apply_identity_validity flt identity k =
     (case identity of
        Fresh _ \<Rightarrow> set_exceptions_valid flt True k
      | Invalid _ \<Rightarrow> set_exceptions_valid flt False k)"

definition invalidate_if_expired ::
  "faults \<Rightarrow> system_time option \<Rightarrow> system_time \<Rightarrow> KernelMaps \<Rightarrow> (map_error + bool) \<times> KernelMaps" where
  "invalidate_if_expired flt expires_at now k =
     (case expires_at of
        None \<Rightarrow> (case set_exceptions_valid flt False k of
                   (Inl e, k') \<Rightarrow> (Inl e, k') | (Inr _, k') \<Rightarrow> (Inr True, k'))
      | Some ex \<Rightarrow>
          if ex \<le> now then
            (case set_exceptions_valid flt False k of
               (Inl e, k') \<Rightarrow> (Inl e, k') | (Inr _, k') \<Rightarrow> (Inr True, k'))
          else (Inr False, k))"

subsection \<open>Manual seeds\<close>

datatype seed_error = BadCgroupId string | TooManySeeds nat | SeedWrite u64

fun parse_seed_parts :: "string list \<Rightarrow> seed_error + u64 list" where
  "parse_seed_parts [] = Inr []"
| "parse_seed_parts (p # ps) =
     (if trim p = [] then parse_seed_parts ps
      else (case parse_uint 64 (trim p) of
              None \<Rightarrow> Inl (BadCgroupId (trim p))
            | Some n \<Rightarrow> and_then (parse_seed_parts ps) (\<lambda>ids. Inr (of_nat n # ids))))"

definition parse_manual_cgroup_ids :: "string \<Rightarrow> seed_error + u64 list" where
  "parse_manual_cgroup_ids raw =
     and_then (parse_seed_parts (split_on CHR '','' raw)) (\<lambda>ids.
     if IDENTITY_ALLOW_CGROUPS_MAX_ENTRIES < unat (of_nat (length ids) :: u32)
     then Inl (TooManySeeds (length ids)) else Inr ids)"

fun seed_all :: "faults \<Rightarrow> u64 list \<Rightarrow> KernelMaps \<Rightarrow> (seed_error + unit) \<times> KernelMaps" where
  "seed_all flt [] k = (Inr (), k)"
| "seed_all flt (i # is) k =
     (case seed_allow_cgroup flt i k of
        (Inl _, k') \<Rightarrow> (Inl (SeedWrite i), k')
      | (Inr _, k') \<Rightarrow> seed_all flt is k')"

text \<open>\<open>env\<close> is the value of \<open>NEUROMESH_IDENTITY_ALLOW_CGROUP_IDS\<close>, if it is set.\<close>

definition apply_manual_cgroup_seeds_from_env ::
  "faults \<Rightarrow> string option \<Rightarrow> KernelMaps \<Rightarrow> (seed_error + u64 list) \<times> KernelMaps" where
  "apply_manual_cgroup_seeds_from_env flt env k =
     (case env of
        None \<Rightarrow> (Inr [], k)
      | Some raw \<Rightarrow>
          if trim raw = [] then (Inr [], k)
          else (case parse_manual_cgroup_ids (trim raw) of
                  Inl e \<Rightarrow> (Inl e, k)
                | Inr ids \<Rightarrow> (case seed_all flt ids k of
                                (Inl e, k') \<Rightarrow> (Inl e, k')
                              | (Inr _, k') \<Rightarrow> (Inr ids, k'))))"

subsection \<open>Facts\<close>

lemma evaluate_identity_section_Fresh:
  "evaluate_identity_section scope ids iss ex now = Fresh sec \<longleftrightarrow>
     scope = ''/tmp/'' \<and> iss < ex \<and> now < ex \<and>
     sec = \<lparr>ias_scope_path_prefix = scope, ias_spiffe_ids = ids, ias_issued_at = iss, ias_expires_at = ex\<rparr>"
  by (auto simp: evaluate_identity_section_def REQUIRED_SCOPE_PATH_PREFIX_def
      IDENTITY_EXCEPTION_SCOPE_PREFIX_def)

lemma parse_bundle_Inr:
  assumes "parse_policy_bundle_json_at from_json rfc body now = Inr b"
  obtains doc where "from_json body = Some doc" "bd_schema_version doc \<in> {1, 2, 3}"
    "ppb_schema_version b = bd_schema_version doc"
    "ppb_version b = bd_version doc" "bd_version doc \<noteq> []"
    "ppb_deny_path_prefixes b = bd_deny_path_prefixes doc" "bd_deny_path_prefixes doc \<noteq> []"
    "identity_of_doc rfc (bd_schema_version doc) (bd_identity_allow_exceptions doc) now = Inr (ppb_identity b)"
    "parse_bound rfc (bd_not_before doc) = Inr (ppb_not_before b)"
    "parse_bound rfc (bd_not_after doc) = Inr (ppb_not_after b)"
  using assms unfolding parse_policy_bundle_json_at_def
  by (auto split: if_splits)

lemma identity_of_doc_Fresh:
  assumes "identity_of_doc rfc schema doc now = Inr (Fresh sec)"
  shows "schema \<in> {2, 3} \<and> ias_scope_path_prefix sec = ''/tmp/'' \<and> now < ias_expires_at sec"
  using assms
  by (auto simp: identity_of_doc_def evaluate_identity_section_Fresh split: if_splits option.splits)

lemma set_exceptions_valid_result:
  assumes "wf_maps k" "set_exceptions_valid flt fresh k = (r, k')"
  shows "wf_maps k'"
    "\<exists>u. r = Inr u \<Longrightarrow> ID_EXCEPT_VALID k' = [if fresh then 1 else 0]"
    "\<exists>e. r = Inl e \<Longrightarrow> ID_EXCEPT_VALID k' = ID_EXCEPT_VALID k"
    "PATH_DENY_LIST k' = PATH_DENY_LIST k" "PATH_DENY_COUNT k' = PATH_DENY_COUNT k"
    "ID_ALLOW_CGROUP k' = ID_ALLOW_CGROUP k" "TELEMETRY_STATS k' = TELEMETRY_STATS k"
    "TELEM_RINGBUF k' = TELEM_RINGBUF k"
  using assms
  by (cases "ID_EXCEPT_VALID k"; auto simp: set_exceptions_valid_def except_valid_set_def map_call_def
      array_set_def wf_maps_def Let_def abi_consts split: option.splits if_splits)+

lemma remove_allow_cgroup_result:
  assumes "remove_allow_cgroup flt cg k = (r, k')"
  shows "\<exists>u. r = Inr u \<Longrightarrow> ID_ALLOW_CGROUP k' = (ID_ALLOW_CGROUP k)(cg := None)"
    "\<exists>e. r = Inl e \<Longrightarrow> ID_ALLOW_CGROUP k' = ID_ALLOW_CGROUP k"
    "PATH_DENY_LIST k' = PATH_DENY_LIST k" "PATH_DENY_COUNT k' = PATH_DENY_COUNT k"
    "ID_EXCEPT_VALID k' = ID_EXCEPT_VALID k" "wf_maps k' = wf_maps k"
  using assms
  by (auto simp: remove_allow_cgroup_def allow_cgroup_remove_def map_call_def fun_eq_iff Let_def wf_maps_def
      split: option.splits if_splits)

end
