(* ===== verification/Correlator.thy ===== *)
theory Correlator
  imports Cgroup_Paths Pod_Watch Identity_Allow
begin

section \<open>The correlator: \<open>identity_correlator/{reconcile,mod}.rs\<close>\<close>

text \<open>
  The handlers that keep \<open>ID_ALLOW_CGROUP\<close> in step with pods, cgroups and the allowed
  identities. The state joins what the source keeps behind locks: the side table, the BPF maps
  and the allowlist cache, with the commands sent to the inotify worker. A handler is composed
  of the sections during which it holds a lock, so that the sections can also be interleaved
  with those of the policy task. A refused map write is a fault of the schedule \<open>flt\<close>. Metrics
  and log lines are left out.
\<close>

datatype TeardownCmd = Watch path | Unwatch path | Rearm "path list"

record Correlator =
  cr_table :: SideTable
  cr_maps :: KernelMaps
  cr_allow :: PeAllowlistCache
  cr_cmds :: "TeardownCmd list"

datatype corr_error =
  MapRefused map_error | ListPodsFailed | ResolveFailed resolve_error | InodeMismatch path u64
  | SideTableFull u64 | WorkerGone | Panicked | WalkUnfinished

definition send_cmds :: "TeardownCmd list \<Rightarrow> Correlator \<Rightarrow> Correlator" where
  "send_cmds cs st = st\<lparr>cr_cmds := cr_cmds st @ cs\<rparr>"

subsection \<open>Configuration\<close>

record IdentityCorrelatorConfig =
  icc_enabled :: bool
  icc_node_name :: string
  icc_cgroup_root :: path
  icc_trust_domain :: string

datatype config_error = NodeNameRequired | BadNodeName node_name_error

text \<open>The arguments are the values of the environment variables, when they are set.\<close>

definition correlator_enabled :: "string option \<Rightarrow> bool" where
  "correlator_enabled v =
     (case v of
        None \<Rightarrow> False
      | Some s \<Rightarrow> (let s = to_ascii_lowercase (trim s) in s \<in> {''1'', ''true'', ''yes'', ''on''}))"

definition correlator_config_from_env ::
  "string option \<Rightarrow> string option \<Rightarrow> string option \<Rightarrow> string option \<Rightarrow> config_error + IdentityCorrelatorConfig" where
  "correlator_config_from_env correlator_env node_env root_env trust_env =
     (let enabled = correlator_enabled correlator_env;
          node_name = (case node_env of None \<Rightarrow> [] | Some s \<Rightarrow> s);
          cgroup_root = path_components (case root_env of None \<Rightarrow> ''/sys/fs/cgroup'' | Some s \<Rightarrow> s);
          cfg = \<lparr>icc_enabled = enabled, icc_node_name = node_name, icc_cgroup_root = cgroup_root,
                 icc_trust_domain = trust_domain_from_env trust_env\<rparr>
      in if enabled then
           (if trim node_name = [] then Inl NodeNameRequired
            else (case validate_node_name node_name of
                    Inl e \<Rightarrow> Inl (BadNodeName e) | Inr _ \<Rightarrow> Inr cfg))
         else Inr cfg)"

subsection \<open>Map removals\<close>

fun remove_each :: "faults \<Rightarrow> u64 list \<Rightarrow> KernelMaps \<Rightarrow> (map_error + unit) \<times> KernelMaps" where
  "remove_each flt [] k = (Inr (), k)"
| "remove_each flt (i # is) k =
     (case remove_allow_cgroup flt i k of
        (Inl e, k') \<Rightarrow> (Inl e, k')
      | (Inr _, k') \<Rightarrow> remove_each flt is k')"

definition apply_invalidations ::
  "faults \<Rightarrow> u64 list \<Rightarrow> Correlator \<Rightarrow> (corr_error + unit) \<times> Correlator" where
  "apply_invalidations flt ids st =
     (if ids = [] then (Inr (), st)
      else (case remove_each flt ids (cr_maps st) of
              (Inl e, k) \<Rightarrow> (Inl (MapRefused e), st\<lparr>cr_maps := k\<rparr>)
            | (Inr _, k) \<Rightarrow> (Inr (), st\<lparr>cr_maps := k\<rparr>)))"

subsection \<open>Reconciling a pod\<close>

definition container_eligible :: "ContainerStatusView \<Rightarrow> bool" where
  "container_eligible c \<longleftrightarrow>
     (case cs_container_id c of
        Some i \<Rightarrow> (if trim i \<noteq> [] then True else cs_running c)
      | None \<Rightarrow> cs_running c)"

text \<open>The outer \<open>None\<close> is the panic of the container match.\<close>

definition resolve_container_cgroup_path ::
  "CgroupFs \<Rightarrow> path \<Rightarrow> string \<Rightarrow> ContainerStatusView \<Rightarrow> path option option" where
  "resolve_container_cgroup_path fs cgroup_root uid c =
     (if \<not> container_eligible c then Some None
      else (case Option.bind (cs_container_id c) strip_runtime_prefix of
              None \<Rightarrow> Some None
            | Some raw \<Rightarrow>
                (case find_existing_pod_dir fs cgroup_root uid of
                   None \<Rightarrow> Some None
                 | Some pod_dir \<Rightarrow> find_container_leaf fs pod_dir raw)))"

definition plan_revoke_ids :: "SideTable \<Rightarrow> string set \<Rightarrow> u64 list" where
  "plan_revoke_ids t allowed = plan_pe_allowlist_revoke allowed t"

definition apply_revoke_plan :: "u64 list \<Rightarrow> SideTable \<Rightarrow> (u64 \<times> path) list \<times> SideTable" where
  "apply_revoke_plan ids t =
     (let (out, t') = remove_ids remove_by_cgroup ids t in (map (\<lambda>(i, e). (i, se_cgroup_path e)) out, t'))"

definition take_pod_if_not_allowed ::
  "string \<Rightarrow> string \<Rightarrow> PeAllowlistCache \<Rightarrow> SideTable \<Rightarrow> (u64 list \<times> path list) option \<times> SideTable" where
  "take_pod_if_not_allowed uid spiffe allow t =
     (if allowlist_contains spiffe allow then (None, t)
      else (let (removed, t') = remove_by_pod uid t in
            (Some (map fst removed, map (\<lambda>(_, e). se_cgroup_path e) removed), t')))"

definition side_entry_for_container :: "PodView \<Rightarrow> string \<Rightarrow> path \<Rightarrow> u64 \<Rightarrow> SideEntry" where
  "side_entry_for_container pod spiffe leaf inode =
     \<lparr>se_pod_uid = pod_uid pod, se_namespace = pod_namespace pod,
      se_service_account =
        (if trim (pod_service_account pod) = [] then ''default'' else pod_service_account pod),
      se_spiffe_id = spiffe, se_cgroup_path = leaf, se_inode = inode\<rparr>"

text \<open>The two locked sections for one container: enter the row, then seed the map or roll back.\<close>

definition insert_section :: "u64 \<Rightarrow> SideEntry \<Rightarrow> Correlator \<Rightarrow> InsertOutcome \<times> Correlator" where
  "insert_section inode entry st =
     (let (out, t) = insert_row inode entry (cr_table st) in (out, st\<lparr>cr_table := t\<rparr>))"

definition seed_section :: "faults \<Rightarrow> u64 \<Rightarrow> path \<Rightarrow> Correlator \<Rightarrow> Correlator" where
  "seed_section flt inode leaf st =
     (case seed_allow_cgroup flt inode (cr_maps st) of
        (Inl _, k) \<Rightarrow> st\<lparr>cr_maps := k, cr_table := snd (remove_by_cgroup inode (cr_table st))\<rparr>
      | (Inr _, k) \<Rightarrow> send_cmds [Watch leaf] (st\<lparr>cr_maps := k\<rparr>))"

fun reconcile_containers ::
  "faults \<Rightarrow> CgroupFs \<Rightarrow> path \<Rightarrow> PodView \<Rightarrow> string \<Rightarrow> ContainerStatusView list \<Rightarrow> Correlator
   \<Rightarrow> (corr_error + unit) \<times> Correlator" where
  "reconcile_containers flt fs cgroup_root pod spiffe [] st = (Inr (), st)"
| "reconcile_containers flt fs cgroup_root pod spiffe (c # cs) st =
     (case resolve_container_cgroup_path fs cgroup_root (pod_uid pod) c of
        None \<Rightarrow> (Inl Panicked, st)
      | Some None \<Rightarrow> reconcile_containers flt fs cgroup_root pod spiffe cs st
      | Some (Some leaf) \<Rightarrow>
          (case inode_of_path fs leaf of
             Inl _ \<Rightarrow> reconcile_containers flt fs cgroup_root pod spiffe cs st
           | Inr inode \<Rightarrow>
               (case insert_section inode (side_entry_for_container pod spiffe leaf inode) st of
                  (RejectedFull, st1) \<Rightarrow> reconcile_containers flt fs cgroup_root pod spiffe cs st1
                | (Replaced, st1) \<Rightarrow>
                    reconcile_containers flt fs cgroup_root pod spiffe cs (seed_section flt inode leaf st1)
                | (Inserted, st1) \<Rightarrow>
                    reconcile_containers flt fs cgroup_root pod spiffe cs (seed_section flt inode leaf st1))))"

definition reconcile_pod ::
  "faults \<Rightarrow> CgroupFs \<Rightarrow> IdentityCorrelatorConfig \<Rightarrow> PodView \<Rightarrow> Correlator \<Rightarrow> (corr_error + unit) \<times> Correlator" where
  "reconcile_pod flt fs cfg pod st =
     (let spiffe = construct_spiffe_id (icc_trust_domain cfg) (pod_namespace pod) (pod_service_account pod) in
      case take_pod_if_not_allowed (pod_uid pod) spiffe (cr_allow st) (cr_table st) of
        (Some (ids, paths), t) \<Rightarrow>
          apply_invalidations flt ids (send_cmds (map Unwatch paths) (st\<lparr>cr_table := t\<rparr>))
      | (None, t) \<Rightarrow>
          reconcile_containers flt fs (icc_cgroup_root cfg) pod spiffe (pod_containers pod)
            (st\<lparr>cr_table := t\<rparr>))"

subsection \<open>Revocation and hygiene\<close>

text \<open>\<open>tx\<close> says whether the policy task holds the sender of the inotify worker.\<close>

definition revoke_not_in_allowlist :: "faults \<Rightarrow> bool \<Rightarrow> Correlator \<Rightarrow> (corr_error + unit) \<times> Correlator" where
  "revoke_not_in_allowlist flt tx st =
     (let (removed, t) = apply_revoke_plan (plan_revoke_ids (cr_table st) (cr_allow st)) (cr_table st);
          st1 = st\<lparr>cr_table := t\<rparr>;
          st2 = (if tx then send_cmds (map (\<lambda>(_, p). Unwatch p) removed) st1 else st1)
      in apply_invalidations flt (map fst removed) st2)"

definition clear_side_table_hygiene :: "faults \<Rightarrow> bool \<Rightarrow> Correlator \<Rightarrow> (corr_error + unit) \<times> Correlator" where
  "clear_side_table_hygiene flt tx st =
     (let (cleared, t) = clear_table (cr_table st);
          st1 = st\<lparr>cr_table := t\<rparr>;
          st2 = (if tx then send_cmds (map (\<lambda>(_, e). Unwatch (se_cgroup_path e)) cleared) st1 else st1)
      in apply_invalidations flt (map fst cleared) st2)"

subsection \<open>Manual seeds\<close>

text \<open>\<open>worker\<close> is \<open>None\<close> without a sender, and otherwise whether the worker still receives.\<close>

definition register_seeded_cgroup ::
  "nat \<Rightarrow> CgroupFs \<Rightarrow> path \<Rightarrow> u64 \<Rightarrow> bool option \<Rightarrow> Correlator \<Rightarrow> (corr_error + SideEntry) \<times> Correlator" where
  "register_seeded_cgroup fuel fs cgroup_root cgroup_id worker st =
     (case path_for_cgroup_id fuel fs cgroup_root cgroup_id of
        None \<Rightarrow> (Inl WalkUnfinished, st)
      | Some (Inl e) \<Rightarrow> (Inl (ResolveFailed e), st)
      | Some (Inr p) \<Rightarrow>
          (case inode_of_path fs p of
             Inl e \<Rightarrow> (Inl (ResolveFailed e), st)
           | Inr inode \<Rightarrow>
               if inode \<noteq> cgroup_id then (Inl (InodeMismatch p inode), st)
               else
                 (let entry = \<lparr>se_pod_uid = (case parse_cgroup_path (path_str p) of
                                               None \<Rightarrow> [] | Some r \<Rightarrow> pcp_pod_uid r),
                               se_namespace = [], se_service_account = [], se_spiffe_id = [],
                               se_cgroup_path = p, se_inode = inode\<rparr>;
                      (out, st1) = insert_section cgroup_id entry st
                  in if out = RejectedFull then (Inl (SideTableFull cgroup_id), st1)
                     else (case worker of
                             None \<Rightarrow> (Inr entry, st1)
                           | Some True \<Rightarrow> (Inr entry, send_cmds [Watch p] st1)
                           | Some False \<Rightarrow> (Inl WorkerGone, st1)))))"

fun register_manual_seed_ids ::
  "nat \<Rightarrow> CgroupFs \<Rightarrow> path \<Rightarrow> bool \<Rightarrow> u64 list \<Rightarrow> Correlator \<Rightarrow> (corr_error + SideEntry list) \<times> Correlator" where
  "register_manual_seed_ids fuel fs cgroup_root worker [] st = (Inr [], st)"
| "register_manual_seed_ids fuel fs cgroup_root worker (i # is) st =
     (case register_seeded_cgroup fuel fs cgroup_root i (Some worker) st of
        (Inl e, st1) \<Rightarrow> (Inl e, st1)
      | (Inr entry, st1) \<Rightarrow>
          (case register_manual_seed_ids fuel fs cgroup_root worker is st1 of
             (Inl e, st2) \<Rightarrow> (Inl e, st2)
           | (Inr es, st2) \<Rightarrow> (Inr (entry # es), st2)))"

subsection \<open>Resync\<close>

definition rearm_cmd :: "SideTable \<Rightarrow> TeardownCmd" where
  "rearm_cmd t = Rearm (map (\<lambda>(_, e). se_cgroup_path e) (by_cgroup t))"

text \<open>The sweep without an API client.\<close>

definition local_resync :: "faults \<Rightarrow> CgroupFs \<Rightarrow> Correlator \<Rightarrow> (corr_error + unit) \<times> Correlator" where
  "local_resync flt fs st =
     (let (ids, t) = plan_missing_path_sweep (fs_exists fs) (cr_table st)
      in apply_invalidations flt ids (send_cmds [rearm_cmd t] (st\<lparr>cr_table := t\<rparr>)))"

fun delete_pods :: "string list \<Rightarrow> SideTable \<Rightarrow> u64 list \<times> SideTable" where
  "delete_pods [] t = ([], t)"
| "delete_pods (u # us) t =
     (let (ids, t1) = plan_pod_delete u t; (ids', t2) = delete_pods us t1 in (ids @ ids', t2))"

definition stale_uids :: "string set \<Rightarrow> SideTable \<Rightarrow> string list" where
  "stale_uids live t =
     remdups (map (\<lambda>(_, e). se_pod_uid e)
       (filter (\<lambda>(_, e). se_pod_uid e \<noteq> [] \<and> se_pod_uid e \<notin> live) (by_cgroup t)))"

text \<open>\<open>live\<close> is what the listing of the pods of this node returns.\<close>

definition forced_resync ::
  "faults \<Rightarrow> CgroupFs \<Rightarrow> string set option \<Rightarrow> Correlator \<Rightarrow> (corr_error + unit) \<times> Correlator" where
  "forced_resync flt fs live st =
     (case live of
        None \<Rightarrow> (Inl ListPodsFailed, st)
      | Some live_pods \<Rightarrow>
          (let (ids1, t1) = plan_missing_path_sweep (fs_exists fs) (cr_table st);
               (ids2, t2) = delete_pods (stale_uids live_pods t1) t1
           in apply_invalidations flt (remdups_adj (sort (ids1 @ ids2)))
                (send_cmds [rearm_cmd t2] (st\<lparr>cr_table := t2\<rparr>))))"

subsection \<open>The event loop\<close>

record TeardownBatch =
  tb_torn_down_paths :: "path list"
  tb_overflow :: bool

text \<open>One torn-down path; a refused removal is logged and the loop goes on.\<close>

definition handle_torn_path :: "faults \<Rightarrow> path \<Rightarrow> Correlator \<Rightarrow> Correlator" where
  "handle_torn_path flt p st =
     (let (i, t) = (case cgroup_id_for_path p (cr_table st) of
                      Some cid \<Rightarrow> plan_teardown cid (cr_table st)
                    | None \<Rightarrow> (None, cr_table st));
          st1 = send_cmds [Unwatch p] (st\<lparr>cr_table := t\<rparr>)
      in case i of None \<Rightarrow> st1 | Some i \<Rightarrow> snd (apply_invalidations flt [i] st1))"

text \<open>\<open>client\<close> is \<open>None\<close> without an API client, and otherwise the listing it would return.\<close>

definition handle_batch ::
  "faults \<Rightarrow> CgroupFs \<Rightarrow> string set option option \<Rightarrow> TeardownBatch \<Rightarrow> Correlator \<Rightarrow> Correlator" where
  "handle_batch flt fs client batch st =
     (if tb_overflow batch then
        (case client of
           Some live \<Rightarrow> snd (forced_resync flt fs live st)
         | None \<Rightarrow> snd (local_resync flt fs st))
      else fold (handle_torn_path flt) (tb_torn_down_paths batch) st)"

text \<open>One pod event; after a panic, which the handler returns as an error, the task is gone.\<close>

definition handle_pod_event ::
  "faults \<Rightarrow> CgroupFs \<Rightarrow> IdentityCorrelatorConfig \<Rightarrow> PodWatchEvent \<Rightarrow> Correlator \<Rightarrow> Correlator" where
  "handle_pod_event flt fs cfg ev st =
     (case ev of
        Upsert pod \<Rightarrow> snd (reconcile_pod flt fs cfg pod st)
      | Deleted uid \<Rightarrow>
          (let (removed, t) = remove_by_pod uid (cr_table st);
               st1 = send_cmds (map (\<lambda>(_, e). Unwatch (se_cgroup_path e)) removed) (st\<lparr>cr_table := t\<rparr>)
           in snd (apply_invalidations flt (map fst removed) st1)))"

text \<open>What \<open>run_correlator\<close> does before its loop; an error ends the task.\<close>

definition correlator_startup ::
  "faults \<Rightarrow> CgroupFs \<Rightarrow> string set option option \<Rightarrow> Correlator \<Rightarrow> (corr_error + unit) \<times> Correlator" where
  "correlator_startup flt fs client st =
     (case client of
        Some live \<Rightarrow> forced_resync flt fs live st
      | None \<Rightarrow> local_resync flt fs st)"

subsection \<open>Invariants\<close>

text \<open>
  \<open>tracked\<close>: every excepted cgroup has a row, so that every way of taking a pod, a path or an
  identity out of the table reaches its exception. \<open>rows_allowed\<close>: a row is a manual seed or
  carries an allowed identity.
\<close>

definition tracked :: "Correlator \<Rightarrow> bool" where
  "tracked st \<longleftrightarrow> dom (ID_ALLOW_CGROUP (cr_maps st)) \<subseteq> dom (rows (cr_table st))"

definition rows_allowed :: "Correlator \<Rightarrow> bool" where
  "rows_allowed st \<longleftrightarrow>
     (\<forall>cg e. rows (cr_table st) cg = Some e \<longrightarrow> se_spiffe_id e = [] \<or> se_spiffe_id e \<in> cr_allow st)"

definition corr_inv :: "Correlator \<Rightarrow> bool" where
  "corr_inv st \<longleftrightarrow> side_inv (cr_table st) \<and> rows_allowed st"

text \<open>A schedule that refuses no call.\<close>

definition never_refused :: "faults \<Rightarrow> bool" where
  "never_refused flt \<longleftrightarrow> (\<forall>n. flt n = None)"

lemma send_cmds_simps [simp]:
  "cr_table (send_cmds cs st) = cr_table st" "cr_maps (send_cmds cs st) = cr_maps st"
  "cr_allow (send_cmds cs st) = cr_allow st"
  by (simp_all add: send_cmds_def)

lemma remove_allow_cgroup_ok:
  "never_refused flt \<Longrightarrow> remove_allow_cgroup flt cg k = (r, k') \<Longrightarrow> r = Inr ()"
  by (auto simp: never_refused_def remove_allow_cgroup_def allow_cgroup_remove_def map_call_def Let_def
      split: if_splits)

lemma seed_allow_cgroup_result:
  assumes "seed_allow_cgroup flt cg k = (r, k')"
  shows "r = Inr u \<Longrightarrow> ID_ALLOW_CGROUP k' = (ID_ALLOW_CGROUP k)(cg \<mapsto> IDENTITY_ALLOW_VALUE)"
    "r = Inl e \<Longrightarrow> ID_ALLOW_CGROUP k' = ID_ALLOW_CGROUP k"
    "never_refused flt \<Longrightarrow> r = Inr ()"
  using assms
  by (auto simp: never_refused_def seed_allow_cgroup_def allow_cgroup_insert_def map_call_def Let_def
      split: option.splits)

lemma remove_each_result:
  assumes "remove_each flt ids k = (r, k')"
  shows "ID_ALLOW_CGROUP k' \<subseteq>\<^sub>m ID_ALLOW_CGROUP k"
    "r = Inr u \<Longrightarrow> ID_ALLOW_CGROUP k' = ID_ALLOW_CGROUP k |` (- set ids)"
    "never_refused flt \<Longrightarrow> r = Inr ()"
proof -
  have "ID_ALLOW_CGROUP k' \<subseteq>\<^sub>m ID_ALLOW_CGROUP k \<and>
    (r = Inr u \<longrightarrow> ID_ALLOW_CGROUP k' = ID_ALLOW_CGROUP k |` (- set ids)) \<and>
    (never_refused flt \<longrightarrow> r = Inr ())"
    using assms
  proof (induction ids arbitrary: k)
    case (Cons i ids)
    obtain r1 k1 where s: "remove_allow_cgroup flt i k = (r1, k1)" by fastforce
    note res = remove_allow_cgroup_result [OF s]
    show ?case
    proof (cases r1)
      case (Inl e)
      with Cons.prems s have "r = Inl e" "k' = k1" by auto
      with res(2) Inl remove_allow_cgroup_ok [OF _ s] show ?thesis by auto
    next
      case (Inr x)
      with Cons.prems s have rest: "remove_each flt ids k1 = (r, k')" by simp
      have k1: "ID_ALLOW_CGROUP k1 = (ID_ALLOW_CGROUP k)(i := None)" using res(1) Inr by blast
      have le: "ID_ALLOW_CGROUP k1 \<subseteq>\<^sub>m ID_ALLOW_CGROUP k"
        unfolding k1 by (simp add: map_le_def)
      have "ID_ALLOW_CGROUP k1 |` (- set ids) = ID_ALLOW_CGROUP k |` (- set (i # ids))"
        unfolding k1 by (auto simp: restrict_map_def fun_eq_iff)
      with Cons.IH [OF rest] le show ?thesis by (metis map_le_trans)
    qed
  qed (auto simp: restrict_map_def)
  then show "ID_ALLOW_CGROUP k' \<subseteq>\<^sub>m ID_ALLOW_CGROUP k"
    "r = Inr u \<Longrightarrow> ID_ALLOW_CGROUP k' = ID_ALLOW_CGROUP k |` (- set ids)"
    "never_refused flt \<Longrightarrow> r = Inr ()" by auto
qed

lemma apply_invalidations_result:
  assumes "apply_invalidations flt ids st = (r, st')"
  shows "cr_table st' = cr_table st" "cr_allow st' = cr_allow st" "cr_cmds st' = cr_cmds st"
    "ID_ALLOW_CGROUP (cr_maps st') \<subseteq>\<^sub>m ID_ALLOW_CGROUP (cr_maps st)"
    "r = Inr u \<Longrightarrow> ID_ALLOW_CGROUP (cr_maps st') = ID_ALLOW_CGROUP (cr_maps st) |` (- set ids)"
    "never_refused flt \<Longrightarrow> r = Inr ()"
proof -
  obtain r1 k1 where s: "remove_each flt ids (cr_maps st) = (r1, k1)" by fastforce
  note res = remove_each_result [OF s]
  show "cr_table st' = cr_table st" "cr_allow st' = cr_allow st" "cr_cmds st' = cr_cmds st"
    using assms s by (auto simp: apply_invalidations_def split: if_splits sum.splits)
  show "ID_ALLOW_CGROUP (cr_maps st') \<subseteq>\<^sub>m ID_ALLOW_CGROUP (cr_maps st)"
    using assms s res(1) by (auto simp: apply_invalidations_def split: if_splits sum.splits)
  show "ID_ALLOW_CGROUP (cr_maps st') = ID_ALLOW_CGROUP (cr_maps st) |` (- set ids)" if "r = Inr u"
    using assms s res(2) that
    by (auto simp: apply_invalidations_def restrict_map_def split: if_splits sum.splits)
  show "r = Inr ()" if "never_refused flt"
    using assms s res(3) [OF that] by (auto simp: apply_invalidations_def split: if_splits)
qed

text \<open>The shape of every removal: take rows out of the table, then drop their keys.\<close>

lemma drop_rows:
  assumes inv: "corr_inv st" and t: "side_inv t" "rows t = rows (cr_table st) |` A"
    and st1: "cr_table st1 = t" "cr_maps st1 = cr_maps st" "cr_allow st1 = cr_allow st"
    and run: "apply_invalidations flt ids st1 = (r, st')"
  shows "corr_inv st'"
    "never_refused flt \<Longrightarrow> tracked st \<Longrightarrow> (\<And>cg e. rows (cr_table st) cg = Some e \<Longrightarrow> cg \<notin> A \<Longrightarrow> cg \<in> set ids) \<Longrightarrow> tracked st'"
proof -
  note res = apply_invalidations_result [OF run]
  have rows': "rows (cr_table st') = rows (cr_table st) |` A"
    using res(1) st1(1) t(2) by simp
  show "corr_inv st'"
    using inv res(1,2) st1(1,3) t rows' unfolding corr_inv_def rows_allowed_def
    by (auto simp: restrict_map_def split: if_splits)
  assume nf: "never_refused flt" and tr: "tracked st"
    and ids: "\<And>cg e. rows (cr_table st) cg = Some e \<Longrightarrow> cg \<notin> A \<Longrightarrow> cg \<in> set ids"
  have m: "ID_ALLOW_CGROUP (cr_maps st') = ID_ALLOW_CGROUP (cr_maps st) |` (- set ids)"
    using res(5) [OF res(6) [OF nf]] st1(2) by simp
  show "tracked st'"
    unfolding tracked_def
  proof
    fix cg assume "cg \<in> dom (ID_ALLOW_CGROUP (cr_maps st'))"
    then have "cg \<in> dom (ID_ALLOW_CGROUP (cr_maps st))" "cg \<notin> set ids"
      unfolding m by auto
    with tr obtain e where "rows (cr_table st) cg = Some e" unfolding tracked_def by blast
    with ids \<open>cg \<notin> set ids\<close> have "cg \<in> A" by blast
    with \<open>rows (cr_table st) cg = Some e\<close> rows' show "cg \<in> dom (rows (cr_table st'))" by auto
  qed
qed

lemma corr_inv_table: "corr_inv st \<Longrightarrow> side_inv (cr_table st)"
  by (simp add: corr_inv_def)

lemma insert_section_result:
  assumes "corr_inv st" "se_spiffe_id e = [] \<or> se_spiffe_id e \<in> cr_allow st"
    "insert_section cg e st = (out, st')"
  shows "corr_inv st'" "tracked st \<Longrightarrow> tracked st'" "cr_maps st' = cr_maps st" "cr_allow st' = cr_allow st"
    "out \<noteq> RejectedFull \<Longrightarrow> rows (cr_table st') = (rows (cr_table st))(cg \<mapsto> e)"
    "dom (rows (cr_table st)) \<subseteq> dom (rows (cr_table st'))"
proof -
  obtain t where i: "insert_row cg e (cr_table st) = (out, t)" and st': "st' = st\<lparr>cr_table := t\<rparr>"
    using assms(3) by (auto simp: insert_section_def split: prod.splits)
  note res = insert_row_result [OF corr_inv_table [OF assms(1)] i]
  show "cr_maps st' = cr_maps st" "cr_allow st' = cr_allow st" by (simp_all add: st')
  show r: "out \<noteq> RejectedFull \<Longrightarrow> rows (cr_table st') = (rows (cr_table st))(cg \<mapsto> e)"
    using res(3) by (simp add: st')
  show d: "dom (rows (cr_table st)) \<subseteq> dom (rows (cr_table st'))"
    using res(2) r by (cases "out = RejectedFull") (auto simp: st')
  show "corr_inv st'"
  proof (cases "out = RejectedFull")
    case True
    with res(2) assms(1) show ?thesis by (simp add: st')
  next
    case False
    with r res(1) assms(1,2) show ?thesis
      unfolding corr_inv_def rows_allowed_def by (simp add: st')
  qed
  show "tracked st \<Longrightarrow> tracked st'"
    using d unfolding tracked_def by (auto simp: st')
qed

lemma seed_section_result:
  assumes "corr_inv st"
  shows "corr_inv (seed_section flt cg p st)"
    "cr_allow (seed_section flt cg p st) = cr_allow st"
    "never_refused flt \<Longrightarrow> tracked st \<Longrightarrow> cg \<in> dom (rows (cr_table st)) \<Longrightarrow> tracked (seed_section flt cg p st)"
proof -
  obtain r k where s: "seed_allow_cgroup flt cg (cr_maps st) = (r, k)" by fastforce
  note res = seed_allow_cgroup_result [OF s]
  show "corr_inv (seed_section flt cg p st)"
    using assms side_inv_remove_by_cgroup [OF corr_inv_table [OF assms], of cg]
    unfolding seed_section_def s corr_inv_def rows_allowed_def
    by (cases r) (auto simp: rows_remove_by_cgroup)
  show "cr_allow (seed_section flt cg p st) = cr_allow st"
    unfolding seed_section_def s by (cases r) auto
  assume nf: "never_refused flt" and tr: "tracked st" and cg: "cg \<in> dom (rows (cr_table st))"
  from res(3) [OF nf] have r: "r = Inr ()" .
  from tr cg res(1) [OF r] show "tracked (seed_section flt cg p st)"
    unfolding seed_section_def s tracked_def r by auto
qed

subsection \<open>Every handler keeps the invariants\<close>

lemma reconcile_containers_inv:
  assumes "corr_inv st" "spiffe \<in> cr_allow st"
    "reconcile_containers flt fs root pod spiffe cs st = (r, st')"
  shows "corr_inv st' \<and> cr_allow st' = cr_allow st \<and> (never_refused flt \<longrightarrow> tracked st \<longrightarrow> tracked st')"
  using assms
proof (induction cs arbitrary: st)
  case (Cons c cs)
  note IH = Cons.IH and inv = Cons.prems(1) and al = Cons.prems(2) and run = Cons.prems(3)
  show ?case
  proof (cases "resolve_container_cgroup_path fs root (pod_uid pod) c")
    case None
    with inv run show ?thesis by auto
  next
    case (Some leaf_opt)
    show ?thesis
    proof (cases leaf_opt)
      case None
      with Some run IH [OF inv al] show ?thesis by simp
    next
      case leaf: (Some leaf)
      show ?thesis
      proof (cases "inode_of_path fs leaf")
        case (Inl e)
        with Some leaf run IH [OF inv al] show ?thesis by simp
      next
        case (Inr inode)
        obtain out st1 where i: "insert_section inode (side_entry_for_container pod spiffe leaf inode) st = (out, st1)"
          by fastforce
        have sp: "se_spiffe_id (side_entry_for_container pod spiffe leaf inode) = [] \<or>
            se_spiffe_id (side_entry_for_container pod spiffe leaf inode) \<in> cr_allow st"
          using al by (simp add: side_entry_for_container_def)
        note ins = insert_section_result [OF inv sp i]
        note seed = seed_section_result [OF ins(1), of flt inode leaf]
        have al1: "spiffe \<in> cr_allow st1" "spiffe \<in> cr_allow (seed_section flt inode leaf st1)"
          using al ins(4) seed(2) by simp_all
        show ?thesis
        proof (cases "out = RejectedFull")
          case True
          with Some leaf Inr i run have "reconcile_containers flt fs root pod spiffe cs st1 = (r, st')"
            by simp
          from IH [OF ins(1) al1(1) this] ins(2,4) show ?thesis by simp
        next
          case False
          with Some leaf Inr i run
          have next_run: "reconcile_containers flt fs root pod spiffe cs (seed_section flt inode leaf st1) = (r, st')"
            by (cases out) auto
          have "inode \<in> dom (rows (cr_table st1))" using ins(5) [OF False] by simp
          with IH [OF seed(1) al1(2) next_run] seed(2,3) ins(2,4) show ?thesis by simp
        qed
      qed
    qed
  qed
qed simp

lemma pod_rows_removed:
  assumes "side_inv t" "remove_by_pod uid t = (out, t')" "rows t cg = Some e"
    "cg \<notin> {cg. \<forall>e. rows t cg = Some e \<longrightarrow> uid = [] \<or> se_pod_uid e \<noteq> uid}"
  shows "cg \<in> set (map fst out)"
proof -
  have "(cg, e) \<in> set out"
    unfolding remove_by_pod_result(3) [OF assms(1,2)] using assms(3,4) by auto
  then show ?thesis by force
qed

lemma reconcile_pod_inv:
  assumes "corr_inv st" "reconcile_pod flt fs cfg pod st = (r, st')"
  shows "corr_inv st' \<and> cr_allow st' = cr_allow st \<and> (never_refused flt \<longrightarrow> tracked st \<longrightarrow> tracked st')"
proof -
  define spiffe where "spiffe = construct_spiffe_id (icc_trust_domain cfg) (pod_namespace pod) (pod_service_account pod)"
  show ?thesis
  proof (cases "spiffe \<in> cr_allow st")
    case True
    with assms(2) have run: "reconcile_containers flt fs (icc_cgroup_root cfg) pod spiffe (pod_containers pod) st = (r, st')"
      by (simp add: reconcile_pod_def take_pod_if_not_allowed_def allowlist_contains_def Let_def
          flip: spiffe_def)
    from reconcile_containers_inv [OF assms(1) True run] show ?thesis .
  next
    case False
    obtain out t where rm: "remove_by_pod (pod_uid pod) (cr_table st) = (out, t)" by fastforce
    let ?st1 = "send_cmds (map Unwatch (map (\<lambda>(_, e). se_cgroup_path e) out)) (st\<lparr>cr_table := t\<rparr>)"
    from False assms(2) rm have run: "apply_invalidations flt (map fst out) ?st1 = (r, st')"
      by (simp add: reconcile_pod_def take_pod_if_not_allowed_def allowlist_contains_def Let_def
          flip: spiffe_def)
    note res = remove_by_pod_result [OF corr_inv_table [OF assms(1)] rm]
    note drop = drop_rows [OF assms(1) res(1,2) _ _ _ run, simplified send_cmds_simps, simplified]
    have "cr_allow st' = cr_allow st"
      using apply_invalidations_result(2) [OF run] by simp
    moreover have "corr_inv st'" by (rule drop(1))
    moreover have "tracked st'" if "never_refused flt" "tracked st"
      using drop(2) [OF that] pod_rows_removed [OF corr_inv_table [OF assms(1)] rm] by auto
    ultimately show ?thesis by blast
  qed
qed

abbreviation kept_by :: "faults \<Rightarrow> Correlator \<Rightarrow> Correlator \<Rightarrow> bool" where
  "kept_by flt st st' \<equiv> corr_inv st' \<and> (never_refused flt \<longrightarrow> tracked st \<longrightarrow> tracked st')"

lemma pod_event_inv: "corr_inv st \<Longrightarrow> kept_by flt st (handle_pod_event flt fs cfg ev st)"
proof (cases ev)
  case (Upsert pod)
  assume "corr_inv st"
  from reconcile_pod_inv [OF this] Upsert show ?thesis
    by (simp add: handle_pod_event_def) (metis prod.collapse)
next
  case (Deleted uid)
  assume inv: "corr_inv st"
  obtain out t where rm: "remove_by_pod uid (cr_table st) = (out, t)" by fastforce
  let ?st1 = "send_cmds (map (\<lambda>(_, e). Unwatch (se_cgroup_path e)) out) (st\<lparr>cr_table := t\<rparr>)"
  obtain r st' where run: "apply_invalidations flt (map fst out) ?st1 = (r, st')" by fastforce
  note res = remove_by_pod_result [OF corr_inv_table [OF inv] rm]
  note drop = drop_rows [OF inv res(1,2) _ _ _ run, simplified send_cmds_simps, simplified]
  have "handle_pod_event flt fs cfg ev st = st'"
    using Deleted rm run by (simp add: handle_pod_event_def Let_def)
  moreover have "tracked st'" if "never_refused flt" "tracked st"
    using drop(2) [OF that] pod_rows_removed [OF corr_inv_table [OF inv] rm] by auto
  ultimately show ?thesis using drop(1) by blast
qed

lemma torn_path_inv: "corr_inv st \<Longrightarrow> kept_by flt st (handle_torn_path flt p st)"
proof -
  assume inv: "corr_inv st"
  show ?thesis
  proof (cases "by_path (cr_table st) p")
    case None
    then have "handle_torn_path flt p st = send_cmds [Unwatch p] st"
      by (simp add: handle_torn_path_def cgroup_id_for_path_def Let_def)
    with inv show ?thesis by (simp add: corr_inv_def rows_allowed_def tracked_def)
  next
    case (Some cg)
    with corr_inv_table [OF inv] obtain e where e: "rows (cr_table st) cg = Some e"
      unfolding side_inv_def by blast
    let ?t = "snd (remove_by_cgroup cg (cr_table st))"
    let ?st1 = "send_cmds [Unwatch p] (st\<lparr>cr_table := ?t\<rparr>)"
    obtain r st' where run: "apply_invalidations flt [cg] ?st1 = (r, st')" by fastforce
    have "rows ?t = rows (cr_table st) |` (- {cg})"
      unfolding rows_remove_by_cgroup by (simp add: restrict_complement_singleton_eq)
    note drop = drop_rows [OF inv side_inv_remove_by_cgroup [OF corr_inv_table [OF inv]] this _ _ _ run,
        simplified send_cmds_simps, simplified]
    have "plan_teardown cg (cr_table st) = (Some cg, ?t)"
      using e by (simp add: plan_teardown_def fst_remove_by_cgroup split: prod.split)
        (metis fst_conv fst_remove_by_cgroup option.simps(9))
    then have "handle_torn_path flt p st = st'"
      using Some run by (simp add: handle_torn_path_def cgroup_id_for_path_def Let_def)
    with drop show ?thesis by blast
  qed
qed

lemma kept_by_trans: "kept_by flt a b \<Longrightarrow> kept_by flt b c \<Longrightarrow> kept_by flt a c"
  by blast

lemma torn_paths_inv: "corr_inv st \<Longrightarrow> kept_by flt st (fold (handle_torn_path flt) ps st)"
proof (induction ps arbitrary: st)
  case (Cons p ps)
  from torn_path_inv [OF Cons.prems, of flt p] Cons.IH [of "handle_torn_path flt p st"]
  show ?case by simp
qed simp

lemma sweep_ids:
  assumes "side_inv t"
  shows "side_inv (snd (plan_missing_path_sweep ex t))"
    "rows (snd (plan_missing_path_sweep ex t)) = rows t |` {cg. \<forall>e. rows t cg = Some e \<longrightarrow> ex (se_cgroup_path e)}"
    "set (fst (plan_missing_path_sweep ex t)) = {cg. \<exists>e. rows t cg = Some e \<and> \<not> ex (se_cgroup_path e)}"
proof -
  note res = sweep_missing_paths_result [OF assms, of ex]
  show "side_inv (snd (plan_missing_path_sweep ex t))"
    "rows (snd (plan_missing_path_sweep ex t)) = rows t |` {cg. \<forall>e. rows t cg = Some e \<longrightarrow> ex (se_cgroup_path e)}"
    using res(1,2) by (simp_all add: plan_missing_path_sweep_def split_beta)
  have "set (fst (plan_missing_path_sweep ex t)) = fst ` set (fst (sweep_missing_paths ex t))"
    by (simp add: plan_missing_path_sweep_def split_beta)
  also have "\<dots> = {cg. \<exists>e. rows t cg = Some e \<and> \<not> ex (se_cgroup_path e)}"
    unfolding res(3) by force
  finally show "set (fst (plan_missing_path_sweep ex t)) = {cg. \<exists>e. rows t cg = Some e \<and> \<not> ex (se_cgroup_path e)}" .
qed

lemma local_resync_inv: "corr_inv st \<Longrightarrow> kept_by flt st (snd (local_resync flt fs st))"
proof -
  assume inv: "corr_inv st"
  obtain ids t where p: "plan_missing_path_sweep (fs_exists fs) (cr_table st) = (ids, t)" by fastforce
  obtain r st' where run: "apply_invalidations flt ids (send_cmds [rearm_cmd t] (st\<lparr>cr_table := t\<rparr>)) = (r, st')"
    by fastforce
  note res = sweep_ids [OF corr_inv_table [OF inv], of "fs_exists fs", unfolded p, simplified]
  note drop = drop_rows [OF inv res(1,2) _ _ _ run, simplified send_cmds_simps, simplified]
  have "snd (local_resync flt fs st) = st'"
    using p run by (simp add: local_resync_def)
  with drop res(3) show ?thesis by auto
qed

lemma remove_by_pod_iff:
  assumes "side_inv t" "remove_by_pod u t = (out, t')"
  shows "rows t' cg = Some e \<longleftrightarrow> rows t cg = Some e \<and> (u = [] \<or> se_pod_uid e \<noteq> u)"
    "cg \<in> set (map fst out) \<longleftrightarrow> (\<exists>e. rows t cg = Some e \<and> u \<noteq> [] \<and> se_pod_uid e = u)"
proof -
  note r = remove_by_pod_result [OF assms]
  show "rows t' cg = Some e \<longleftrightarrow> rows t cg = Some e \<and> (u = [] \<or> se_pod_uid e \<noteq> u)"
    unfolding r(2) restrict_map_def by (cases "rows t cg") auto
  have "cg \<in> set (map fst out) \<longleftrightarrow> (\<exists>e. (cg, e) \<in> set out)" by force
  then show "cg \<in> set (map fst out) \<longleftrightarrow> (\<exists>e. rows t cg = Some e \<and> u \<noteq> [] \<and> se_pod_uid e = u)"
    unfolding r(3) by simp
qed

lemma delete_pods_result:
  assumes "side_inv t" "delete_pods us t = (ids, t')"
  shows "side_inv t' \<and>
    (\<forall>cg e. rows t' cg = Some e \<longleftrightarrow> rows t cg = Some e \<and> (se_pod_uid e = [] \<or> se_pod_uid e \<notin> set us)) \<and>
    (\<forall>cg. cg \<in> set ids \<longleftrightarrow> (\<exists>e. rows t cg = Some e \<and> se_pod_uid e \<noteq> [] \<and> se_pod_uid e \<in> set us))"
  using assms
proof (induction us arbitrary: t ids)
  case Nil
  then show ?case by simp
next
  case (Cons u us)
  obtain out t1 where rm: "remove_by_pod u t = (out, t1)" by fastforce
  obtain ids2 where d: "delete_pods us t1 = (ids2, t')" and ids: "ids = map fst out @ ids2"
    using Cons.prems(2) rm by (auto simp: plan_pod_delete_def split: prod.splits)
  note r = remove_by_pod_iff [OF Cons.prems(1) rm]
  have inv1: "side_inv t1" using remove_by_pod_result(1) [OF Cons.prems(1) rm] .
  note IH = Cons.IH [OF inv1 d]
  have "rows t' cg = Some e \<longleftrightarrow> rows t cg = Some e \<and> (se_pod_uid e = [] \<or> se_pod_uid e \<notin> set (u # us))" for cg e
  proof -
    have "rows t' cg = Some e \<longleftrightarrow> rows t1 cg = Some e \<and> (se_pod_uid e = [] \<or> se_pod_uid e \<notin> set us)"
      using IH by blast
    then show ?thesis unfolding r(1) by auto
  qed
  moreover have "cg \<in> set ids \<longleftrightarrow> (\<exists>e. rows t cg = Some e \<and> se_pod_uid e \<noteq> [] \<and> se_pod_uid e \<in> set (u # us))" for cg
  proof -
    have "cg \<in> set ids2 \<longleftrightarrow> (\<exists>e. rows t1 cg = Some e \<and> se_pod_uid e \<noteq> [] \<and> se_pod_uid e \<in> set us)"
      using IH by blast
    then have "cg \<in> set ids \<longleftrightarrow> (\<exists>e. rows t cg = Some e \<and> u \<noteq> [] \<and> se_pod_uid e = u) \<or>
        (\<exists>e. rows t cg = Some e \<and> (u = [] \<or> se_pod_uid e \<noteq> u) \<and> se_pod_uid e \<noteq> [] \<and> se_pod_uid e \<in> set us)"
      unfolding ids set_append Un_iff r by blast
    then show ?thesis by auto
  qed
  ultimately show ?case using IH by blast
qed

lemma rows_restrict:
  "(\<And>cg e. rows t cg = Some e \<longleftrightarrow> rows s cg = Some e \<and> P e) \<Longrightarrow>
   rows t = rows s |` {cg. \<forall>e. rows s cg = Some e \<longrightarrow> P e}"
proof (rule ext)
  fix cg
  assume iff: "\<And>cg e. rows t cg = Some e \<longleftrightarrow> rows s cg = Some e \<and> P e"
  show "rows t cg = (rows s |` {cg. \<forall>e. rows s cg = Some e \<longrightarrow> P e}) cg"
  proof (cases "rows s cg")
    case None
    with iff [of cg] have "rows t cg = None" by (metis not_None_eq)
    with None show ?thesis by (simp add: restrict_map_def)
  next
    case (Some e)
    have "rows t cg = (if P e then Some e else None)"
      using iff [of cg] Some by (metis not_None_eq option.inject)
    with Some show ?thesis by (simp add: restrict_map_def)
  qed
qed

text \<open>A row survives a resync when its path exists and its pod, if it has one, is alive.\<close>

definition still_live :: "CgroupFs \<Rightarrow> string set \<Rightarrow> SideEntry \<Rightarrow> bool" where
  "still_live fs live e \<longleftrightarrow> fs_exists fs (se_cgroup_path e) \<and> (se_pod_uid e = [] \<or> se_pod_uid e \<in> live)"

lemma stale_uids_mem:
  "side_inv t \<Longrightarrow> u \<in> set (stale_uids live t) \<longleftrightarrow>
     u \<noteq> [] \<and> u \<notin> live \<and> (\<exists>cg e. rows t cg = Some e \<and> se_pod_uid e = u)"
  unfolding stale_uids_def set_remdups rows_mem by force

lemma resync_plan:
  assumes inv: "side_inv t" and p1: "plan_missing_path_sweep (fs_exists fs) t = (ids1, t1)"
    and p2: "delete_pods (stale_uids live t1) t1 = (ids2, t2)"
  shows "side_inv t2" "rows t2 cg = Some e \<longleftrightarrow> rows t cg = Some e \<and> still_live fs live e"
    "rows t cg = Some e \<Longrightarrow> \<not> still_live fs live e \<Longrightarrow> cg \<in> set (ids1 @ ids2)"
proof -
  note s = sweep_ids [OF inv, of "fs_exists fs", unfolded p1, simplified]
  have t1: "rows t1 cg = Some e \<longleftrightarrow> rows t cg = Some e \<and> fs_exists fs (se_cgroup_path e)" for cg e
    unfolding s(2) restrict_map_def by (cases "rows t cg") auto
  note d = delete_pods_result [OF s(1) p2]
  show "side_inv t2" using d by blast
  have stale: "rows t1 cg = Some e \<Longrightarrow>
      se_pod_uid e \<in> set (stale_uids live t1) \<longleftrightarrow> se_pod_uid e \<noteq> [] \<and> se_pod_uid e \<notin> live" for cg e
    unfolding stale_uids_mem [OF s(1)] by blast
  have "rows t2 cg = Some e \<longleftrightarrow> rows t1 cg = Some e \<and> (se_pod_uid e = [] \<or> se_pod_uid e \<notin> set (stale_uids live t1))"
    using d by blast
  then show "rows t2 cg = Some e \<longleftrightarrow> rows t cg = Some e \<and> still_live fs live e"
    using stale [of cg e] t1 [of cg e] unfolding still_live_def by blast
  assume row: "rows t cg = Some e" and dead: "\<not> still_live fs live e"
  show "cg \<in> set (ids1 @ ids2)"
  proof (cases "fs_exists fs (se_cgroup_path e)")
    case True
    with row t1 have "rows t1 cg = Some e" by blast
    moreover from this stale dead True have "se_pod_uid e \<noteq> []" "se_pod_uid e \<in> set (stale_uids live t1)"
      unfolding still_live_def by blast+
    ultimately have "cg \<in> set ids2" using d by blast
    then show ?thesis by simp
  next
    case False
    with row s(3) show ?thesis by auto
  qed
qed

lemma forced_resync_inv:
  assumes inv: "corr_inv st" and run: "forced_resync flt fs live st = (r, st')"
  shows "kept_by flt st st'"
    "live = Some l \<Longrightarrow> rows (cr_table st') cg = Some e \<longleftrightarrow> rows (cr_table st) cg = Some e \<and> still_live fs l e"
    "live = Some l \<Longrightarrow> r = Inr u \<Longrightarrow> rows (cr_table st) cg = Some e \<Longrightarrow> \<not> still_live fs l e \<Longrightarrow>
     ID_ALLOW_CGROUP (cr_maps st') cg = None"
    "never_refused flt \<Longrightarrow> live = Some l \<Longrightarrow> r = Inr ()"
proof -
  have "kept_by flt st st' \<and> (live = Some l \<longrightarrow>
      (rows (cr_table st') cg = Some e \<longleftrightarrow> rows (cr_table st) cg = Some e \<and> still_live fs l e) \<and>
      (r = Inr u \<longrightarrow> rows (cr_table st) cg = Some e \<longrightarrow> \<not> still_live fs l e \<longrightarrow>
         ID_ALLOW_CGROUP (cr_maps st') cg = None) \<and> (never_refused flt \<longrightarrow> r = Inr ()))"
  proof (cases live)
    case None
    with run inv show ?thesis by (simp add: forced_resync_def)
  next
    case (Some l')
    obtain ids1 t1 where p1: "plan_missing_path_sweep (fs_exists fs) (cr_table st) = (ids1, t1)" by fastforce
    obtain ids2 t2 where p2: "delete_pods (stale_uids l' t1) t1 = (ids2, t2)" by fastforce
    let ?ids = "remdups_adj (sort (ids1 @ ids2))"
    note plan = resync_plan [OF corr_inv_table [OF inv] p1 p2]
    have run1: "apply_invalidations flt ?ids (send_cmds [rearm_cmd t2] (st\<lparr>cr_table := t2\<rparr>)) = (r, st')"
      using run Some p1 p2 by (simp add: forced_resync_def)
    note res = apply_invalidations_result [OF run1]
    note drop = drop_rows [OF inv plan(1) rows_restrict [OF plan(2)] _ _ _ run1, simplified send_cmds_simps, simplified]
    have ids: "set ?ids = set (ids1 @ ids2)" by simp
    have "tracked st'" if "never_refused flt" "tracked st"
      using drop(2) [OF that] plan(3) by auto
    moreover have "rows (cr_table st') cg = Some e \<longleftrightarrow> rows (cr_table st) cg = Some e \<and> still_live fs l' e"
      using res(1) plan(2) by simp
    moreover have "ID_ALLOW_CGROUP (cr_maps st') cg = None"
      if "r = Inr u" "rows (cr_table st) cg = Some e" "\<not> still_live fs l' e"
      using res(5) [OF that(1)] plan(3) [OF that(2,3)] unfolding ids by (auto simp: restrict_map_def)
    ultimately show ?thesis using drop(1) Some res(6) by blast
  qed
  then show "kept_by flt st st'"
    "live = Some l \<Longrightarrow> rows (cr_table st') cg = Some e \<longleftrightarrow> rows (cr_table st) cg = Some e \<and> still_live fs l e"
    "live = Some l \<Longrightarrow> r = Inr u \<Longrightarrow> rows (cr_table st) cg = Some e \<Longrightarrow> \<not> still_live fs l e \<Longrightarrow>
     ID_ALLOW_CGROUP (cr_maps st') cg = None"
    "never_refused flt \<Longrightarrow> live = Some l \<Longrightarrow> r = Inr ()"
    by blast+
qed

lemma batch_inv: "corr_inv st \<Longrightarrow> kept_by flt st (handle_batch flt fs client b st)"
proof -
  assume inv: "corr_inv st"
  have "kept_by flt st (snd (forced_resync flt fs live st))" for live
    using forced_resync_inv(1) [OF inv prod.collapse [symmetric]] .
  with torn_paths_inv [OF inv] local_resync_inv [OF inv] show ?thesis
    by (simp add: handle_batch_def split: option.split)
qed

lemma startup_inv: "corr_inv st \<Longrightarrow> kept_by flt st (snd (correlator_startup flt fs client st))"
  using forced_resync_inv(1) [OF _ prod.collapse [symmetric]] local_resync_inv
  by (simp add: correlator_startup_def split: option.split)

subsection \<open>The policy task\<close>

text \<open>The allowlist of a fresh bundle with its revocation, and the clearing on an invalid one.\<close>

definition policy_fresh :: "faults \<Rightarrow> bool \<Rightarrow> string list \<Rightarrow> Correlator \<Rightarrow> Correlator" where
  "policy_fresh flt tx ids st =
     snd (revoke_not_in_allowlist flt tx (st\<lparr>cr_allow := allowlist_replace ids\<rparr>))"

definition policy_invalid :: "faults \<Rightarrow> bool \<Rightarrow> Correlator \<Rightarrow> Correlator" where
  "policy_invalid flt tx st = snd (clear_side_table_hygiene flt tx (st\<lparr>cr_allow := allowlist_clear\<rparr>))"

lemma revoke_result:
  assumes inv: "side_inv (cr_table st)" and run: "revoke_not_in_allowlist flt tx st = (r, st')"
  shows "corr_inv st'" "never_refused flt \<Longrightarrow> tracked st \<Longrightarrow> tracked st'" "cr_allow st' = cr_allow st"
    "rows (cr_table st') cg = Some e \<longleftrightarrow>
       rows (cr_table st) cg = Some e \<and> (se_spiffe_id e = [] \<or> se_spiffe_id e \<in> cr_allow st)"
proof -
  define ids where "ids = plan_revoke_ids (cr_table st) (cr_allow st)"
  have mem: "cg \<in> set ids \<longleftrightarrow> (\<exists>e. rows (cr_table st) cg = Some e \<and> se_spiffe_id e \<noteq> [] \<and> se_spiffe_id e \<notin> cr_allow st)" for cg
    unfolding ids_def plan_revoke_ids_def plan_pe_allowlist_revoke_def mem_filter_ids rows_mem [OF inv] by simp
  obtain out t where rm: "remove_ids remove_by_cgroup ids (cr_table st) = (out, t)" by fastforce
  note spec = side.remove_ids_spec [OF inv, of ids, unfolded rm, simplified]
  let ?removed = "map (\<lambda>(i, e). (i, se_cgroup_path e)) out"
  define st2 where "st2 = (if tx then send_cmds (map (\<lambda>(_, p). Unwatch p) ?removed) (st\<lparr>cr_table := t\<rparr>) else st\<lparr>cr_table := t\<rparr>)"
  have st2: "cr_table st2 = t" "cr_maps st2 = cr_maps st" "cr_allow st2 = cr_allow st"
    by (simp_all add: st2_def)
  have fsts: "map fst ?removed = map fst out" by (auto simp: split_beta)
  have run1: "apply_invalidations flt (map fst out) st2 = (r, st')"
    using run rm unfolding revoke_not_in_allowlist_def apply_revoke_plan_def Let_def st2_def
    by (simp only: prod.case fsts flip: ids_def)
  note res = apply_invalidations_result [OF run1]
  have t: "rows t cg = Some e \<longleftrightarrow> rows (cr_table st) cg = Some e \<and> cg \<notin> set ids" for cg e
    using spec by (auto simp: restrict_map_def)
  show "rows (cr_table st') cg = Some e \<longleftrightarrow>
      rows (cr_table st) cg = Some e \<and> (se_spiffe_id e = [] \<or> se_spiffe_id e \<in> cr_allow st)"
    using t [of cg e] mem [of cg] res(1) st2(1) by auto
  show al: "cr_allow st' = cr_allow st" using res(2) st2(3) by simp
  show "corr_inv st'"
    using spec res(1) st2(1) al t mem unfolding corr_inv_def rows_allowed_def by metis
  assume nf: "never_refused flt" and tr: "tracked st"
  have m: "ID_ALLOW_CGROUP (cr_maps st') = ID_ALLOW_CGROUP (cr_maps st) |` (- set (map fst out))"
    using res(5) [OF res(6) [OF nf]] st2(2) by simp
  have out: "cg \<in> set (map fst out) \<longleftrightarrow> cg \<in> set ids" for cg
  proof -
    have "cg \<in> set (map fst out) \<longleftrightarrow> (\<exists>e. (cg, e) \<in> set out)" by force
    then show ?thesis using spec mem by blast
  qed
  show "tracked st'"
    unfolding tracked_def
  proof
    fix cg assume "cg \<in> dom (ID_ALLOW_CGROUP (cr_maps st'))"
    then have "cg \<in> dom (ID_ALLOW_CGROUP (cr_maps st))" "cg \<notin> set ids"
      unfolding m using out by (auto simp: restrict_map_def split: if_splits)
    with tr t obtain e where "rows t cg = Some e" unfolding tracked_def by blast
    then show "cg \<in> dom (rows (cr_table st'))" using res(1) st2(1) by auto
  qed
qed

lemma policy_fresh_inv: "corr_inv st \<Longrightarrow> kept_by flt st (policy_fresh flt tx ids st)"
proof -
  assume inv: "corr_inv st"
  let ?st = "st\<lparr>cr_allow := allowlist_replace ids\<rparr>"
  have s: "side_inv (cr_table ?st)" and "tracked ?st = tracked st"
    using corr_inv_table [OF inv] by (simp_all add: tracked_def)
  with revoke_result [OF s prod.collapse [symmetric], of flt tx] show ?thesis
    unfolding policy_fresh_def by blast
qed

lemma policy_invalid_inv: "corr_inv st \<Longrightarrow> kept_by flt st (policy_invalid flt tx st)"
proof -
  assume inv: "corr_inv st"
  let ?st = "st\<lparr>cr_allow := allowlist_clear\<rparr>"
  define st2 where "st2 = (if tx then send_cmds (map (\<lambda>(_, e). Unwatch (se_cgroup_path e)) (by_cgroup (cr_table st)))
      (?st\<lparr>cr_table := side_table_new\<rparr>) else ?st\<lparr>cr_table := side_table_new\<rparr>)"
  obtain r st' where run: "apply_invalidations flt (map fst (by_cgroup (cr_table st))) st2 = (r, st')" by fastforce
  have st': "policy_invalid flt tx st = st'"
    using run by (simp add: policy_invalid_def clear_side_table_hygiene_def clear_table_def st2_def Let_def)
  have st2: "cr_table st2 = side_table_new" "cr_maps st2 = cr_maps st" by (simp_all add: st2_def)
  note res = apply_invalidations_result [OF run]
  have "corr_inv st'"
    unfolding corr_inv_def rows_allowed_def res(1) st2(1) by (simp, simp add: side_table_new_def)
  moreover have "tracked st'" if "never_refused flt" "tracked st"
  proof -
    have "ID_ALLOW_CGROUP (cr_maps st') = ID_ALLOW_CGROUP (cr_maps st) |` (- dom (rows (cr_table st)))"
      using res(5) [OF res(6) [OF that(1)]] st2(2) by (simp add: dom_map_of_conv_image_fst)
    with that(2) show ?thesis unfolding tracked_def by auto
  qed
  ultimately show ?thesis unfolding st' by blast
qed

subsection \<open>Manual seeds\<close>

lemma seed_all_dom:
  "seed_all flt ids k = (r, k') \<Longrightarrow> dom (ID_ALLOW_CGROUP k') \<subseteq> dom (ID_ALLOW_CGROUP k) \<union> set ids"
proof (induction ids arbitrary: k)
  case (Cons i ids)
  obtain r1 k1 where s: "seed_allow_cgroup flt i k = (r1, k1)" by fastforce
  have d: "dom (ID_ALLOW_CGROUP k1) \<subseteq> insert i (dom (ID_ALLOW_CGROUP k))"
    using seed_allow_cgroup_result(1,2) [OF s] by (cases r1) auto
  show ?case
  proof (cases r1)
    case (Inl e)
    with Cons.prems s d show ?thesis by auto
  next
    case (Inr u)
    with Cons.prems s have "seed_all flt ids k1 = (r, k')" by simp
    from Cons.IH [OF this] d show ?thesis by auto
  qed
qed simp

lemma register_seeded_result:
  assumes "corr_inv st" "register_seeded_cgroup fuel fs root cg worker st = (r, st')"
  shows "corr_inv st' \<and> cr_maps st' = cr_maps st \<and> cr_allow st' = cr_allow st \<and>
    dom (rows (cr_table st)) \<subseteq> dom (rows (cr_table st')) \<and>
    (\<forall>e. r = Inr e \<longrightarrow> cg \<in> dom (rows (cr_table st')))"
proof (cases "\<exists>p. path_for_cgroup_id fuel fs root cg = Some (Inr p) \<and> inode_of_path fs p = Inr cg")
  case False
  with assms show ?thesis
    by (auto simp: register_seeded_cgroup_def split: option.splits sum.splits if_splits)
next
  case True
  then obtain p where p: "path_for_cgroup_id fuel fs root cg = Some (Inr p)" "inode_of_path fs p = Inr cg"
    by blast
  define entry where "entry = \<lparr>se_pod_uid = (case parse_cgroup_path (path_str p) of None \<Rightarrow> [] | Some r \<Rightarrow> pcp_pod_uid r),
      se_namespace = [], se_service_account = [], se_spiffe_id = [], se_cgroup_path = p, se_inode = cg\<rparr>"
  obtain out st1 where i: "insert_section cg entry st = (out, st1)" by fastforce
  have sp: "se_spiffe_id entry = [] \<or> se_spiffe_id entry \<in> cr_allow st" by (simp add: entry_def)
  note ins = insert_section_result [OF assms(1) sp i]
  have run: "(if out = RejectedFull then (Inl (SideTableFull cg), st1)
      else (case worker of None \<Rightarrow> (Inr entry, st1) | Some True \<Rightarrow> (Inr entry, send_cmds [Watch p] st1)
            | Some False \<Rightarrow> (Inl WorkerGone, st1))) = (r, st')"
    using assms(2) p i by (simp add: register_seeded_cgroup_def Let_def flip: entry_def)
  have "corr_inv (send_cmds [Watch p] st1)"
    using ins(1) by (simp add: corr_inv_def rows_allowed_def)
  with run ins show ?thesis
    by (cases "out = RejectedFull") (auto split: option.splits bool.splits)
qed

lemma register_manual_result:
  assumes "corr_inv st" "register_manual_seed_ids fuel fs root worker ids st = (r, st')"
  shows "corr_inv st' \<and> cr_maps st' = cr_maps st \<and> dom (rows (cr_table st)) \<subseteq> dom (rows (cr_table st')) \<and>
    (\<forall>es. r = Inr es \<longrightarrow> set ids \<subseteq> dom (rows (cr_table st')))"
  using assms
proof (induction ids arbitrary: st r)
  case (Cons i ids)
  obtain r1 st1 where s: "register_seeded_cgroup fuel fs root i (Some worker) st = (r1, st1)" by fastforce
  note res = register_seeded_result [OF Cons.prems(1) s]
  show ?case
  proof (cases r1)
    case (Inl e)
    with Cons.prems(2) s res show ?thesis by auto
  next
    case (Inr entry)
    obtain r2 st2 where rest: "register_manual_seed_ids fuel fs root worker ids st1 = (r2, st2)" by fastforce
    have st2: "st2 = st'" and r: "\<And>es. r = Inr es \<Longrightarrow> \<exists>es. r2 = Inr es"
      using Cons.prems(2) s Inr rest by (auto split: sum.splits)
    have inv1: "corr_inv st1" and i: "i \<in> dom (rows (cr_table st1))" using res Inr by blast+
    note IH = Cons.IH [OF inv1 rest [unfolded st2]]
    have "cr_maps st' = cr_maps st" using IH res by simp
    moreover have "dom (rows (cr_table st)) \<subseteq> dom (rows (cr_table st'))" using IH res by blast
    moreover have "set (i # ids) \<subseteq> dom (rows (cr_table st'))" if "r = Inr es" for es
      unfolding set_simps using IH i r [OF that] by blast
    ultimately show ?thesis using IH by blast
  qed
qed simp

subsection \<open>All runs\<close>

text \<open>
  The handlers of the two tasks as steps: the correlator's events and its start-up, the policy
  task's bundles, and the start of the agent that seeds cgroups and registers every seed.
\<close>

inductive corr_step :: "faults \<Rightarrow> Correlator \<Rightarrow> Correlator \<Rightarrow> bool" for flt where
  start: "corr_step flt st (snd (correlator_startup flt fs client st))"
| pod_event: "corr_step flt st (handle_pod_event flt fs cfg ev st)"
| batch: "corr_step flt st (handle_batch flt fs client b st)"
| fresh: "corr_step flt st (policy_fresh flt tx ids st)"
| invalid: "corr_step flt st (policy_invalid flt tx st)"
| seeds: "seed_all flt ids (cr_maps st) = (Inr (), k) \<Longrightarrow>
    register_manual_seed_ids fuel fs root worker ids (st\<lparr>cr_maps := k\<rparr>) = (Inr es, st') \<Longrightarrow>
    corr_step flt st st'"

lemma corr_step_inv: "corr_step flt st st' \<Longrightarrow> corr_inv st \<Longrightarrow> kept_by flt st st'"
proof (induction rule: corr_step.induct)
  case (seeds ids st k fuel fs root worker es st')
  have inv: "corr_inv (st\<lparr>cr_maps := k\<rparr>)"
    using seeds.prems by (simp add: corr_inv_def rows_allowed_def)
  note res = register_manual_result [OF inv seeds.hyps(2)]
  from seed_all_dom [OF seeds.hyps(1)] res have "tracked st \<Longrightarrow> tracked st'"
    unfolding tracked_def by (simp, blast)
  with res show ?case by blast
next
  case start then show ?case by (rule startup_inv)
next
  case pod_event then show ?case by (rule pod_event_inv)
next
  case batch then show ?case by (rule batch_inv)
next
  case fresh then show ?case by (rule policy_fresh_inv)
next
  case invalid then show ?case by (rule policy_invalid_inv)
qed

lemma corr_steps_inv: "(corr_step flt)\<^sup>*\<^sup>* st st' \<Longrightarrow> corr_inv st \<Longrightarrow> kept_by flt st st'"
proof (induction rule: rtranclp_induct)
  case (step y z)
  then show ?case using corr_step_inv [OF step.hyps(2)] by blast
qed simp

definition corr_init :: "KernelMaps \<Rightarrow> Correlator" where
  "corr_init k = \<lparr>cr_table = side_table_new, cr_maps = k, cr_allow = {}, cr_cmds = []\<rparr>"

lemma corr_init_inv: "corr_inv (corr_init k)"
  by (simp add: corr_inv_def corr_init_def rows_allowed_def) (simp add: side_table_new_def)


text \<open>
  C12. A resync that returns leaves no exception behind: every row whose cgroup path is gone or
  whose pod no longer runs on this node is out of the table and its key is out of the kernel
  map; every other row stays. It returns whenever pods can be listed and no removal is refused.
\<close>

theorem forced_resync_complete:
  assumes "corr_inv st" "forced_resync flt fs (Some live) st = (r, st')"
  shows "(\<forall>cg e. rows (cr_table st') cg = Some e \<longleftrightarrow> rows (cr_table st) cg = Some e \<and> still_live fs live e) \<and>
    (r = Inr () \<longrightarrow> (\<forall>cg e. rows (cr_table st) cg = Some e \<longrightarrow> \<not> still_live fs live e \<longrightarrow>
       ID_ALLOW_CGROUP (cr_maps st') cg = None)) \<and>
    ((\<forall>n. flt n = None) \<longrightarrow> r = Inr ())"
proof (intro conjI allI impI)
  note inv = forced_resync_inv [OF assms]
  show "rows (cr_table st') cg = Some e \<longleftrightarrow> rows (cr_table st) cg = Some e \<and> still_live fs live e" for cg e
    by (rule inv(2)) (rule refl)
  show "ID_ALLOW_CGROUP (cr_maps st') cg = None"
    if "r = Inr ()" "rows (cr_table st) cg = Some e" "\<not> still_live fs live e" for cg e
    using inv(3) [OF refl that] .
  show "r = Inr ()" if "\<forall>n. flt n = None"
    using inv(4) [OF _ refl] that by (simp add: never_refused_def)
qed


lemma fresh_maps_allow [simp]: "ID_ALLOW_CGROUP fresh_maps = (\<lambda>_. None)" "km_tick fresh_maps = 0"
  by (simp_all add: fresh_maps_def)

lemma insert_section_small:
  "length (by_cgroup (cr_table st)) < 64 \<Longrightarrow> rows (cr_table st) cg = None \<Longrightarrow>
   insert_section cg e st = (Inserted, st\<lparr>cr_table := link_entry cg e (cr_table st)\<rparr>)"
  by (simp add: insert_section_def insert_row_fresh small_not_full)


subsection \<open>What a refused call and a race leave behind\<close>

definition orphaned :: "u64 \<Rightarrow> Correlator \<Rightarrow> bool" where
  "orphaned cg st \<longleftrightarrow> ID_ALLOW_CGROUP (cr_maps st) cg \<noteq> None \<and> rows (cr_table st) cg = None"

lemma remove_each_other:
  "remove_each flt ids k = (r, k') \<Longrightarrow> cg \<notin> set ids \<Longrightarrow> ID_ALLOW_CGROUP k' cg = ID_ALLOW_CGROUP k cg"
proof (induction ids arbitrary: k)
  case (Cons i ids)
  obtain r1 k1 where s: "remove_allow_cgroup flt i k = (r1, k1)" by fastforce
  have "ID_ALLOW_CGROUP k1 cg = ID_ALLOW_CGROUP k cg"
    using remove_allow_cgroup_result(1,2) [OF s] Cons.prems(2) by (cases r1) auto
  with Cons s show ?case by (cases r1) auto
qed simp

lemma orphan_kept:
  assumes "orphaned cg st" "cr_maps st1 = cr_maps st" "rows (cr_table st1) cg = None" "cg \<notin> set ids"
  shows "orphaned cg (snd (apply_invalidations flt ids st1))"
proof -
  obtain r k where s: "remove_each flt ids (cr_maps st1) = (r, k)" by fastforce
  from remove_each_other [OF s assms(4)] assms(1-3) s show ?thesis
    by (cases r) (auto simp: orphaned_def apply_invalidations_def)
qed

lemma orphan_pod_delete:
  assumes "corr_inv st" "orphaned cg st"
  shows "orphaned cg (handle_pod_event flt fs cfg (Deleted uid) st)"
proof -
  obtain out t where rm: "remove_by_pod uid (cr_table st) = (out, t)" by fastforce
  note iff = remove_by_pod_iff [OF corr_inv_table [OF assms(1)] rm, of cg]
  have no: "rows (cr_table st) cg = None" using assms(2) by (simp add: orphaned_def)
  then have "rows t cg = None" "cg \<notin> set (map fst out)" using iff by (metis not_None_eq, simp)
  then show ?thesis
    using rm by (auto simp: handle_pod_event_def Let_def intro!: orphan_kept [OF assms(2)])
qed

lemma orphan_torn_path:
  assumes "corr_inv st" "orphaned cg st"
  shows "orphaned cg (handle_torn_path flt p st)"
proof (cases "by_path (cr_table st) p")
  case None
  then show ?thesis
    using assms(2) by (simp add: handle_torn_path_def cgroup_id_for_path_def Let_def orphaned_def)
next
  case (Some i)
  have no: "rows (cr_table st) cg = None" using assms(2) by (simp add: orphaned_def)
  obtain e where e: "rows (cr_table st) i = Some e"
    using Some corr_inv_table [OF assms(1)] unfolding side_inv_def by blast
  obtain t where t: "remove_by_cgroup i (cr_table st) = (Some e, t)"
    using fst_remove_by_cgroup [of i "cr_table st"] e by (metis prod.collapse)
  have "rows t = (rows (cr_table st))(i := None)"
    using rows_remove_by_cgroup [of i "cr_table st"] t by simp
  with no have "rows t cg = None" "cg \<noteq> i" using e by auto
  then show ?thesis
    using Some t by (auto simp: handle_torn_path_def cgroup_id_for_path_def plan_teardown_def Let_def
        intro!: orphan_kept [OF assms(2)])
qed

lemma orphan_torn_paths:
  "corr_inv st \<Longrightarrow> orphaned cg st \<Longrightarrow> orphaned cg (fold (handle_torn_path flt) ps st)"
proof (induction ps arbitrary: st)
  case (Cons p ps)
  from Cons.IH [OF conjunct1 [OF torn_path_inv [OF Cons.prems(1)]] orphan_torn_path [OF Cons.prems]]
  show ?case by simp
qed simp

lemma orphan_resync:
  assumes "corr_inv st" "orphaned cg st"
  shows "orphaned cg (snd (local_resync flt fs st))" "orphaned cg (snd (forced_resync flt fs live st))"
proof -
  have no: "rows (cr_table st) cg = None" using assms(2) by (simp add: orphaned_def)
  obtain ids1 t1 where p1: "plan_missing_path_sweep (fs_exists fs) (cr_table st) = (ids1, t1)" by fastforce
  note s = sweep_ids [OF corr_inv_table [OF assms(1)], of "fs_exists fs", unfolded p1, simplified]
  have t1: "rows t1 cg = None" "cg \<notin> set ids1" using no s(2,3) by (simp_all add: restrict_map_def)
  then show "orphaned cg (snd (local_resync flt fs st))"
    using p1 by (auto simp: local_resync_def intro!: orphan_kept [OF assms(2)])
  show "orphaned cg (snd (forced_resync flt fs live st))"
  proof (cases live)
    case None
    then show ?thesis using assms(2) by (simp add: forced_resync_def)
  next
    case (Some l)
    obtain ids2 t2 where p2: "delete_pods (stale_uids l t1) t1 = (ids2, t2)" by fastforce
    note d = delete_pods_result [OF s(1) p2]
    have "cg \<notin> set ids2" using d t1(1) by (metis option.distinct(1))
    moreover have "rows t2 cg = None" using d t1(1) by (metis not_None_eq)
    ultimately show ?thesis
      using p1 p2 Some t1(2) by (auto simp: forced_resync_def intro!: orphan_kept [OF assms(2)])
  qed
qed

lemma orphan_policy:
  assumes "corr_inv st" "orphaned cg st"
  shows "orphaned cg (policy_fresh flt tx ids st)" "orphaned cg (policy_invalid flt tx st)"
proof -
  let ?st = "st\<lparr>cr_allow := allowlist_replace ids\<rparr>"
  have no: "rows (cr_table st) cg = None" using assms(2) by (simp add: orphaned_def)
  note inv = corr_inv_table [OF assms(1)]
  define plan where "plan = plan_revoke_ids (cr_table ?st) (cr_allow ?st)"
  obtain out t where rm: "remove_ids remove_by_cgroup plan (cr_table st) = (out, t)" by fastforce
  note spec = side.remove_ids_spec [OF inv, of plan, unfolded rm, simplified]
  have "rows t cg = None" using spec no by (simp add: restrict_map_def)
  moreover have "cg \<notin> set (map fst (map (\<lambda>(i, e). (i, se_cgroup_path e)) out))"
    using spec no by auto
  ultimately show "orphaned cg (policy_fresh flt tx ids st)"
    using rm unfolding policy_fresh_def revoke_not_in_allowlist_def apply_revoke_plan_def Let_def
      plan_def [symmetric]
    by (auto intro!: orphan_kept [OF assms(2)] simp del: map_map)
  have "cg \<notin> set (map fst (by_cgroup (cr_table st)))"
    using no by (simp add: map_of_eq_None_iff)
  then show "orphaned cg (policy_invalid flt tx st)"
    unfolding policy_invalid_def clear_side_table_hygiene_def clear_table_def Let_def
    by (auto intro!: orphan_kept [OF assms(2)] simp: side_table_new_def)
qed

text \<open>
  C28. An exception whose cgroup has no row is out of reach: whatever is deleted, torn down,
  resynced or revoked afterwards, with or without refused calls, its key stays in the kernel map.
\<close>

theorem orphan_never_revoked:
  assumes "corr_inv st" "orphaned cg st"
  shows "orphaned cg (handle_pod_event flt fs cfg (Deleted uid) st) \<and>
    orphaned cg (handle_batch flt fs client b st) \<and>
    orphaned cg (policy_fresh flt tx ids st) \<and> orphaned cg (policy_invalid flt tx st)"
  using orphan_pod_delete [OF assms] orphan_policy [OF assms] orphan_resync [OF assms] orphan_torn_paths [OF assms]
  by (auto simp: handle_batch_def split: option.split)

definition demo_leaf :: path where
  "demo_leaf = [''kubepods'', ''podu'', ''c1'']"

definition demo_cgroups :: CgroupFs where
  "demo_cgroups =
     \<lparr>fs_exists = (\<lambda>p. p \<in> {[''kubepods'', ''podu''], demo_leaf}),
      fs_is_dir = (\<lambda>p. p \<in> {[''kubepods'', ''podu''], demo_leaf}),
      fs_ino = (\<lambda>p. if p = demo_leaf then Some 7 else None),
      fs_read_dir = (\<lambda>p. if p = [''kubepods'', ''podu''] then Some [''c1''] else None),
      fs_denied = (\<lambda>_. False)\<rparr>"

definition demo_container :: ContainerStatusView where
  "demo_container = \<lparr>cs_name = ''app'', cs_container_id = Some ''containerd://c1'', cs_running = True\<rparr>"

lemma demo_trims: "trim ''containerd://c1'' = ''containerd://c1''" "trim ''c1'' = ''c1''" "trim ''u'' = ''u''"
  by (rule trim_visible; simp add: visible_def)+

lemma demo_strip: "strip_runtime_prefix ''containerd://c1'' = Some ''c1''"
  by (simp add: strip_runtime_prefix_def demo_trims split_once_def starts_with_def)

lemma demo_pod_dir: "find_existing_pod_dir demo_cgroups [] ''u'' = Some [''kubepods'', ''podu'']"
  by (simp add: find_existing_pod_dir_def candidate_pod_dirs_def demo_trims path_join_def starts_with_def demo_cgroups_def Let_def)

lemma demo_scan: "find_container_leaf demo_cgroups [''kubepods'', ''podu''] ''c1'' = Some (Some demo_leaf)"
proof -
  have "utf8_valid (str_bytes ''c1'')"
    by (simp add: utf8_valid_ascii_Cons str_bytes_def)
  then have "from_utf8_lossy (str_bytes ''c1'') = ''c1''"
    by (simp only: from_utf8_lossy_valid bytes_str_str_bytes)
  then show ?thesis
    by (simp add: find_container_leaf_def demo_cgroups_def child_matches_raw_id_def demo_leaf_def)
qed

lemma demo_resolves: "resolve_container_cgroup_path demo_cgroups [] ''u'' demo_container = Some (Some demo_leaf)"
  by (simp add: resolve_container_cgroup_path_def container_eligible_def demo_container_def demo_trims
      demo_strip demo_pod_dir demo_scan)


definition demo_config :: IdentityCorrelatorConfig where
  "demo_config = \<lparr>icc_enabled = True, icc_node_name = ''n'', icc_cgroup_root = [], icc_trust_domain = ''td''\<rparr>"

definition demo_pod :: PodView where
  "demo_pod = \<lparr>pod_uid = ''u'', pod_namespace = ''prod'', pod_service_account = ''web'', pod_containers = [demo_container]\<rparr>"

definition demo_spiffe :: string where
  "demo_spiffe = construct_spiffe_id ''td'' ''prod'' ''web''"

definition demo_start :: Correlator where
  "demo_start = corr_init fresh_maps\<lparr>cr_allow := {demo_spiffe}\<rparr>"

definition demo_row :: SideEntry where
  "demo_row = side_entry_for_container demo_pod demo_spiffe demo_leaf 7"

definition demo_seeded :: Correlator where
  "demo_seeded = snd (reconcile_pod (\<lambda>_. None) demo_cgroups demo_config demo_pod demo_start)"

lemma demo_start_inv: "corr_inv demo_start" "tracked demo_start"
  using corr_init_inv [of fresh_maps]
  by (simp_all add: demo_start_def corr_inv_def rows_allowed_def tracked_def corr_init_def side_table_new_def)

lemma demo_seeded_inv: "corr_inv demo_seeded" "tracked demo_seeded"
proof -
  note inv = reconcile_pod_inv [OF demo_start_inv(1) prod.collapse [symmetric], of "\<lambda>_. None" demo_cgroups demo_config demo_pod]
  from inv demo_start_inv(2) show "corr_inv demo_seeded" "tracked demo_seeded"
    unfolding demo_seeded_def by (auto simp: never_refused_def)
qed

lemma demo_reconcile:
  assumes "demo_spiffe \<in> cr_allow st"
  shows "reconcile_pod flt demo_cgroups demo_config demo_pod st =
    (Inr (), (case insert_section 7 demo_row st of
       (RejectedFull, st1) \<Rightarrow> st1 | (_, st1) \<Rightarrow> seed_section flt 7 demo_leaf st1))"
proof -
  have i: "inode_of_path demo_cgroups demo_leaf = Inr 7" by (simp add: inode_of_path_def demo_cgroups_def)
  have "construct_spiffe_id (icc_trust_domain demo_config) (pod_namespace demo_pod) (pod_service_account demo_pod) = demo_spiffe"
    by (simp add: demo_config_def demo_pod_def demo_spiffe_def)
  with assms demo_resolves i show ?thesis
    unfolding reconcile_pod_def take_pod_if_not_allowed_def allowlist_contains_def
    by (simp add: demo_config_def demo_pod_def demo_row_def split: prod.split InsertOutcome.split)
qed

lemma demo_seeded_state:
  "ID_ALLOW_CGROUP (cr_maps demo_seeded) 7 = Some IDENTITY_ALLOW_VALUE" "rows (cr_table demo_seeded) 7 = Some demo_row"
  "cr_allow demo_seeded = {demo_spiffe}" "km_tick (cr_maps demo_seeded) = 1"
  using demo_reconcile [of demo_start "\<lambda>_. None"]
  by (simp_all add: demo_seeded_def demo_start_def corr_init_def insert_section_small side_table_new_def seed_section_def
      seed_allow_cgroup_def allow_cgroup_insert_def map_call_def Let_def)


text \<open>
  C29. The row and the key of a container are written under different locks. When a bundle that
  drops the identity is applied between the two, its revocation takes the row away and finds no
  key, and the key written afterwards excepts a cgroup whose identity is no longer allowed, with
  no row left to revoke it. No call is refused.
\<close>

theorem reconcile_revoke_race:
  "\<exists>st cg e p out st1. corr_inv st \<and> tracked st \<and> se_spiffe_id e \<in> cr_allow st \<and>
     insert_section cg e st = (out, st1) \<and> out = Inserted \<and>
     (let st3 = seed_section (\<lambda>_. None) cg p (policy_fresh (\<lambda>_. None) True [] st1)
      in se_spiffe_id e \<notin> cr_allow st3 \<and> orphaned cg st3)"
proof (intro exI conjI)
  let ?st1 = "demo_start\<lparr>cr_table := link_entry 7 demo_row (cr_table demo_start)\<rparr>"
  have sp: "se_spiffe_id demo_row = demo_spiffe" by (simp add: demo_row_def side_entry_for_container_def)
  have ne: "demo_spiffe \<noteq> []" by (simp add: demo_spiffe_def construct_spiffe_id_def Let_def)
  show "corr_inv demo_start" "tracked demo_start" by (fact demo_start_inv)+
  show "se_spiffe_id demo_row \<in> cr_allow demo_start" by (simp add: sp demo_start_def)
  show i: "insert_section 7 demo_row demo_start = (Inserted, ?st1)"
    by (rule insert_section_small) (simp_all add: demo_start_def corr_init_def side_table_new_def)
  show "Inserted = Inserted" ..
  let ?st = "?st1\<lparr>cr_allow := allowlist_replace []\<rparr>"
  define st2 where "st2 = policy_fresh (\<lambda>_. None) True [] ?st1"
  have inv1: "corr_inv ?st1" using insert_section_result(1) [OF demo_start_inv(1) _ i] sp
    by (simp add: demo_start_def)
  note rev = revoke_result [OF _ prod.collapse [symmetric], of ?st "\<lambda>_. None" True]
  have al: "cr_allow st2 = {}"
    using rev(3) corr_inv_table [OF inv1] by (simp add: st2_def policy_fresh_def allowlist_replace_def)
  have "rows (cr_table st2) 7 \<noteq> Some e" for e
    using rev(4) [of 7 e] corr_inv_table [OF inv1] sp ne
    by (auto simp: st2_def policy_fresh_def allowlist_replace_def)
  then have "rows (cr_table st2) 7 = None" by (metis not_None_eq)
  with al show "let st3 = seed_section (\<lambda>_. None) 7 demo_leaf (policy_fresh (\<lambda>_. None) True [] ?st1)
      in se_spiffe_id demo_row \<notin> cr_allow st3 \<and> orphaned 7 st3"
    unfolding st2_def [symmetric] Let_def
    by (simp add: seed_section_def seed_allow_cgroup_def allow_cgroup_insert_def map_call_def orphaned_def Let_def)
qed

text \<open>
  C31. A refused removal is not retried: when the kernel refuses the first removal for a deleted
  pod, the rows of all its cgroups are gone while every exception of the map is still there.
\<close>

theorem pod_delete_refused_orphans:
  assumes "corr_inv st" "uid \<noteq> []" "rows (cr_table st) cg = Some e" "se_pod_uid e = uid"
    "ID_ALLOW_CGROUP (cr_maps st) cg \<noteq> None" "flt (km_tick (cr_maps st)) = Some errno"
  shows "orphaned cg (handle_pod_event flt fs cfg (Deleted uid) st)"
proof -
  obtain out t where rm: "remove_by_pod uid (cr_table st) = (out, t)" by fastforce
  note iff = remove_by_pod_iff [OF corr_inv_table [OF assms(1)] rm]
  have "cg \<in> set (map fst out)" unfolding iff(2) using assms(2-4) by blast
  then obtain i ids where ids: "map fst out = i # ids" by (cases "map fst out") auto
  have t: "rows t cg = None" using iff(1) [of cg] assms(2-4) by (metis not_None_eq option.inject)
  let ?st1 = "send_cmds (map (\<lambda>(_, e). Unwatch (se_cgroup_path e)) out) (st\<lparr>cr_table := t\<rparr>)"
  have "orphaned cg (snd (apply_invalidations flt (map fst out) ?st1))"
    using assms(5,6) t unfolding ids apply_invalidations_def
    by (simp add: remove_allow_cgroup_def allow_cgroup_remove_def map_call_def orphaned_def Let_def)
  then show ?thesis using rm by (simp add: handle_pod_event_def Let_def)
qed

theorem pod_delete_refused_orphans_witness:
  "orphaned 7 (handle_pod_event (\<lambda>_. Some 1) demo_cgroups demo_config (Deleted ''u'') demo_seeded)"
  by (rule pod_delete_refused_orphans [OF demo_seeded_inv(1) _ demo_seeded_state(2), where errno = 1])
    (simp_all add: demo_seeded_state demo_row_def side_entry_for_container_def demo_pod_def)

theorem orphan_never_revoked_witness:
  "\<exists>st. orphaned 7 st \<and> orphaned 7 (handle_batch (\<lambda>_. None) demo_cgroups (Some (Some {})) \<lparr>tb_torn_down_paths = [], tb_overflow = True\<rparr> st)"
proof -
  let ?st = "demo_start\<lparr>cr_maps := cr_maps demo_seeded\<rparr>"
  have "corr_inv ?st" using demo_start_inv(1) by (simp add: corr_inv_def rows_allowed_def)
  moreover have o: "orphaned 7 ?st"
    using demo_seeded_state(1) by (simp add: orphaned_def demo_start_def corr_init_def side_table_new_def)
  ultimately show ?thesis using orphan_never_revoked [of ?st 7] by blast
qed


theorem forced_resync_complete_witness:
  "\<exists>st'. forced_resync (\<lambda>_. None) demo_cgroups (Some {}) demo_seeded = (Inr (), st') \<and>
     ID_ALLOW_CGROUP (cr_maps st') 7 = None"
proof -
  obtain r st' where run: "forced_resync (\<lambda>_. None) demo_cgroups (Some {}) demo_seeded = (r, st')" by fastforce
  have "\<not> still_live demo_cgroups {} demo_row"
    by (simp add: still_live_def demo_row_def side_entry_for_container_def demo_pod_def)
  with forced_resync_complete [OF demo_seeded_inv(1) run] demo_seeded_state(2) run show ?thesis by auto
qed

end
