(* ===== verification/Teardown_Watch.thy ===== *)
theory Teardown_Watch
  imports Correlator
begin

section \<open>The teardown watch: \<open>identity_correlator/teardown_watch.rs\<close> and the inotify worker\<close>

text \<open>
  The watches on the parents of registered cgroups, and the worker that applies the commands of
  the correlator and drains inotify events. \<open>add n p\<close> is what inotify answers to the n-th request
  to watch a directory: its descriptor, or nothing when it refuses. A read of the event queue is
  an argument too.
\<close>

record ParentWatch =
  pw_wd :: nat
  pw_children :: "string list"

record TeardownWatcher =
  tw_calls :: nat
  tw_by_wd :: "nat \<Rightarrow> path option"
  tw_by_parent :: "path \<Rightarrow> ParentWatch option"
  tw_by_path :: "(path \<times> path \<times> string) list"

type_synonym inotify_add = "nat \<Rightarrow> path \<Rightarrow> nat option"

definition watcher_new :: TeardownWatcher where
  "watcher_new = \<lparr>tw_calls = 0, tw_by_wd = (\<lambda>_. None), tw_by_parent = (\<lambda>_. None), tw_by_path = []\<rparr>"

datatype watch_error = PathMissing path | NoParent path | NoFileName path | AddRefused path

abbreviation watched :: "TeardownWatcher \<Rightarrow> path \<Rightarrow> (path \<times> string) option" where
  "watched tw \<equiv> map_of (tw_by_path tw)"

definition watch_path ::
  "(path \<Rightarrow> bool) \<Rightarrow> inotify_add \<Rightarrow> path \<Rightarrow> TeardownWatcher \<Rightarrow> (watch_error + bool) \<times> TeardownWatcher" where
  "watch_path exists add p tw =
     (if watched tw p \<noteq> None then (Inr False, tw)
      else if \<not> exists p then (Inl (PathMissing p), tw)
      else if p = [] then (Inl (NoParent p), tw)
      else if last p = ''..'' then (Inl (NoFileName p), tw)
      else
        (let parent = butlast p; child = last p in
         case tw_by_parent tw parent of
           Some pw \<Rightarrow>
             (Inr True,
              tw\<lparr>tw_by_parent := (tw_by_parent tw)(parent \<mapsto> pw\<lparr>pw_children := List.insert child (pw_children pw)\<rparr>),
                 tw_by_path := AList.update p (parent, child) (tw_by_path tw)\<rparr>)
         | None \<Rightarrow>
             (let tw1 = tw\<lparr>tw_calls := Suc (tw_calls tw)\<rparr> in
              case add (tw_calls tw) parent of
                None \<Rightarrow> (Inl (AddRefused parent), tw1)
              | Some wd \<Rightarrow>
                  (Inr True,
                   tw1\<lparr>tw_by_wd := (tw_by_wd tw)(wd \<mapsto> parent),
                       tw_by_parent := (tw_by_parent tw)(parent \<mapsto> \<lparr>pw_wd = wd, pw_children = [child]\<rparr>),
                       tw_by_path := AList.update p (parent, child) (tw_by_path tw)\<rparr>))))"

definition unwatch_path :: "path \<Rightarrow> TeardownWatcher \<Rightarrow> TeardownWatcher" where
  "unwatch_path p tw =
     (case watched tw p of
        None \<Rightarrow> tw
      | Some (parent, child) \<Rightarrow>
          (let tw1 = tw\<lparr>tw_by_path := AList.delete p (tw_by_path tw)\<rparr> in
           case tw_by_parent tw1 parent of
             None \<Rightarrow> tw1
           | Some pw \<Rightarrow>
               (let children = removeAll child (pw_children pw);
                    tw2 = tw1\<lparr>tw_by_parent := (tw_by_parent tw1)(parent := None)\<rparr> in
                if children = [] then tw2\<lparr>tw_by_wd := (tw_by_wd tw2)(pw_wd pw := None)\<rparr>
                else tw2\<lparr>tw_by_parent := (tw_by_parent tw2)(parent \<mapsto> pw\<lparr>pw_children := children\<rparr>)\<rparr>)))"

definition clear_all_watches :: "TeardownWatcher \<Rightarrow> TeardownWatcher" where
  "clear_all_watches tw = fold unwatch_path (map fst (tw_by_path tw)) tw"

fun watch_each ::
  "(path \<Rightarrow> bool) \<Rightarrow> inotify_add \<Rightarrow> path list \<Rightarrow> TeardownWatcher \<Rightarrow> (watch_error + unit) \<times> TeardownWatcher" where
  "watch_each exists add [] tw = (Inr (), tw)"
| "watch_each exists add (p # ps) tw =
     (case watch_path exists add p tw of
        (Inl e, tw1) \<Rightarrow> (Inl e, tw1)
      | (Inr _, tw1) \<Rightarrow> watch_each exists add ps tw1)"

definition rearm_paths ::
  "(path \<Rightarrow> bool) \<Rightarrow> inotify_add \<Rightarrow> path list \<Rightarrow> TeardownWatcher \<Rightarrow> (watch_error + unit) \<times> TeardownWatcher" where
  "rearm_paths exists add ps tw =
     (if ps = [] then (Inr (), tw) else watch_each exists add ps (clear_all_watches tw))"

subsection \<open>Events\<close>

record InotifyEvent =
  ev_wd :: nat
  ev_overflow :: bool
  ev_delete :: bool
  ev_moved_from :: bool
  ev_name :: "bytes option"

definition event_name :: "InotifyEvent \<Rightarrow> string" where
  "event_name ev = (case ev_name ev of None \<Rightarrow> [] | Some n \<Rightarrow> from_utf8_lossy n)"

definition drain_event :: "InotifyEvent \<Rightarrow> TeardownBatch \<times> TeardownWatcher \<Rightarrow> TeardownBatch \<times> TeardownWatcher" where
  "drain_event ev s =
     (let (batch, tw) = s; name = event_name ev in
      if ev_overflow ev then (batch\<lparr>tb_overflow := True\<rparr>, tw)
      else if \<not> (ev_delete ev \<or> ev_moved_from ev) then s
      else
        (case tw_by_wd tw (ev_wd ev) of
           None \<Rightarrow> s
         | Some parent \<Rightarrow>
             if name = [] then s
             else
               (case tw_by_parent tw parent of
                  None \<Rightarrow> s
                | Some pw \<Rightarrow>
                    if name \<notin> set (pw_children pw) then s
                    else
                      (let children = removeAll name (pw_children pw);
                           full = parent @ [name];
                           tw1 = tw\<lparr>tw_by_parent := (tw_by_parent tw)(parent \<mapsto> pw\<lparr>pw_children := children\<rparr>),
                                    tw_by_path := AList.delete full (tw_by_path tw)\<rparr>;
                           tw2 = (if children = []
                                  then tw1\<lparr>tw_by_parent := (tw_by_parent tw1)(parent := None),
                                           tw_by_wd := (tw_by_wd tw1)(pw_wd pw := None)\<rparr>
                                  else tw1)
                       in (batch\<lparr>tb_torn_down_paths := tb_torn_down_paths batch @ [full]\<rparr>, tw2)))))"

datatype event_read = WouldBlock | ReadFailed | Events "InotifyEvent list"

text \<open>
  The drain loop over the successive reads; the reads the argument lists end the way the last
  one does, and a list that ends is read as a queue that would block.
\<close>

fun drain_reads ::
  "event_read list \<Rightarrow> TeardownBatch \<times> TeardownWatcher \<Rightarrow> (unit + TeardownBatch) \<times> TeardownWatcher" where
  "drain_reads [] (batch, tw) = (Inr batch, tw)"
| "drain_reads (WouldBlock # rs) (batch, tw) = (Inr batch, tw)"
| "drain_reads (ReadFailed # rs) (batch, tw) = (Inl (), tw)"
| "drain_reads (Events evs # rs) (batch, tw) =
     (let (batch1, tw1) = fold drain_event evs (batch, tw) in
      if evs = [] \<or> tb_overflow batch1 then (Inr batch1, tw1) else drain_reads rs (batch1, tw1))"

definition batch_empty :: TeardownBatch where
  "batch_empty = \<lparr>tb_torn_down_paths = [], tb_overflow = False\<rparr>"

definition drain_events :: "event_read list \<Rightarrow> TeardownWatcher \<Rightarrow> (unit + TeardownBatch) \<times> TeardownWatcher" where
  "drain_events reads tw = drain_reads reads (batch_empty, tw)"

subsection \<open>The worker\<close>

definition worker_cmd :: "(path \<Rightarrow> bool) \<Rightarrow> inotify_add \<Rightarrow> TeardownCmd \<Rightarrow> TeardownWatcher \<Rightarrow> TeardownWatcher" where
  "worker_cmd exists add cmd tw =
     (case cmd of
        Watch p \<Rightarrow> snd (watch_path exists add p tw)
      | Unwatch p \<Rightarrow> unwatch_path p tw
      | Rearm ps \<Rightarrow> snd (rearm_paths exists add ps tw))"

text \<open>One round: the pending commands, then the events if the poll reports any.\<close>

definition worker_round ::
  "(path \<Rightarrow> bool) \<Rightarrow> inotify_add \<Rightarrow> TeardownCmd list \<Rightarrow> event_read list option \<Rightarrow> TeardownWatcher
   \<Rightarrow> TeardownBatch option \<times> TeardownWatcher" where
  "worker_round exists add cmds polled tw =
     (let tw1 = fold (worker_cmd exists add) cmds tw in
      case polled of
        None \<Rightarrow> (None, tw1)
      | Some reads \<Rightarrow>
          (case drain_events reads tw1 of
             (Inl _, tw2) \<Rightarrow> (None, tw2)
           | (Inr batch, tw2) \<Rightarrow>
               (if tb_overflow batch \<or> tb_torn_down_paths batch \<noteq> [] then Some batch else None, tw2)))"

subsection \<open>The invariant\<close>

text \<open>
  A path is registered exactly when its last component is a child of its parent's watch;
  watches and descriptors correspond, a watch has a child, and a descriptor is one that inotify
  gave for that directory.
\<close>

definition watch_inv :: "inotify_add \<Rightarrow> TeardownWatcher \<Rightarrow> bool" where
  "watch_inv add tw \<longleftrightarrow>
     (\<forall>p par ch. watched tw p = Some (par, ch) \<longleftrightarrow>
        p = par @ [ch] \<and> (\<exists>pw. tw_by_parent tw par = Some pw \<and> ch \<in> set (pw_children pw))) \<and>
     (\<forall>par pw. tw_by_parent tw par = Some pw \<longrightarrow> pw_children pw \<noteq> [] \<and> tw_by_wd tw (pw_wd pw) = Some par) \<and>
     (\<forall>wd par. tw_by_wd tw wd = Some par \<longrightarrow> (\<exists>pw. tw_by_parent tw par = Some pw \<and> pw_wd pw = wd)) \<and>
     (\<forall>wd par. tw_by_wd tw wd = Some par \<longrightarrow> (\<exists>n. add n par = Some wd))"

text \<open>What the correlator relies on: inotify never gives one descriptor for two directories.\<close>

definition wd_unique :: "inotify_add \<Rightarrow> bool" where
  "wd_unique add \<longleftrightarrow> (\<forall>n m p q wd. add n p = Some wd \<longrightarrow> add m q = Some wd \<longrightarrow> p = q)"

subsection \<open>Adding and dropping a child\<close>

lemma watch_invD:
  assumes "watch_inv add tw"
  shows "watched tw p = Some (par, ch) \<longleftrightarrow>
      p = par @ [ch] \<and> (\<exists>pw. tw_by_parent tw par = Some pw \<and> ch \<in> set (pw_children pw))"
    "tw_by_parent tw par = Some pw \<Longrightarrow> pw_children pw \<noteq> [] \<and> tw_by_wd tw (pw_wd pw) = Some par"
    "tw_by_wd tw wd = Some par \<Longrightarrow> \<exists>pw. tw_by_parent tw par = Some pw \<and> pw_wd pw = wd"
    "tw_by_wd tw wd = Some par \<Longrightarrow> \<exists>n. add n par = Some wd"
  using assms unfolding watch_inv_def by blast+

lemma removeAll_Nil: "removeAll x xs = [] \<longleftrightarrow> set xs \<subseteq> {x}"
  by (induction xs) auto

lemma drop_child:
  assumes inv: "watch_inv add tw" and pw: "tw_by_parent tw par = Some pw" and ch: "ch \<in> set (pw_children pw)"
    and path: "tw_by_path tw' = AList.delete (par @ [ch]) (tw_by_path tw)"
    and parent: "tw_by_parent tw' = (tw_by_parent tw)(par :=
      (if removeAll ch (pw_children pw) = [] then None
       else Some (pw\<lparr>pw_children := removeAll ch (pw_children pw)\<rparr>)))"
    and wd: "tw_by_wd tw' = (if removeAll ch (pw_children pw) = []
      then (tw_by_wd tw)(pw_wd pw := None) else tw_by_wd tw)"
  shows "watch_inv add tw'" "watched tw' = (watched tw)(par @ [ch] := None)"
proof -
  note I = watch_invD [OF inv]
  show w: "watched tw' = (watched tw)(par @ [ch] := None)" by (simp add: path)
  have child: "(\<exists>pw'. tw_by_parent tw' q = Some pw' \<and> c \<in> set (pw_children pw')) \<longleftrightarrow>
      (\<exists>pw'. tw_by_parent tw q = Some pw' \<and> c \<in> set (pw_children pw')) \<and> (q, c) \<noteq> (par, ch)" for q c
  proof (cases "q = par")
    case True
    then show ?thesis unfolding parent using pw by (cases "removeAll ch (pw_children pw) = []") (auto simp: removeAll_Nil)
  next
    case False
    then show ?thesis unfolding parent by simp
  qed
  have p1: "watched tw' p = Some (q, c) \<longleftrightarrow>
      p = q @ [c] \<and> (\<exists>pw'. tw_by_parent tw' q = Some pw' \<and> c \<in> set (pw_children pw'))" for p q c
    unfolding child w using I(1) [of p q c] by auto
  have p2: "pw_children pw' \<noteq> [] \<and> tw_by_wd tw' (pw_wd pw') = Some q" if "tw_by_parent tw' q = Some pw'" for q pw'
  proof (cases "q = par")
    case True
    with that I(2) [OF pw] show ?thesis unfolding parent wd by (auto split: if_splits)
  next
    case False
    with that have q: "tw_by_parent tw q = Some pw'" unfolding parent by simp
    with I(2) [OF q] I(2) [OF pw] False show ?thesis unfolding wd by auto
  qed
  have p3: "(\<exists>pw'. tw_by_parent tw' q = Some pw' \<and> pw_wd pw' = d) \<and> (\<exists>n. add n q = Some d)"
    if "tw_by_wd tw' d = Some q" for d q
  proof -
    from that have d: "tw_by_wd tw d = Some q" and ne: "removeAll ch (pw_children pw) = [] \<Longrightarrow> d \<noteq> pw_wd pw"
      unfolding wd by (auto split: if_splits)
    from I(3) [OF d] obtain pw' where pw': "tw_by_parent tw q = Some pw'" "pw_wd pw' = d" by blast
    have "\<exists>pw'. tw_by_parent tw' q = Some pw' \<and> pw_wd pw' = d"
    proof (cases "q = par")
      case True
      with pw' pw ne show ?thesis unfolding parent by auto
    next
      case False
      with pw' show ?thesis unfolding parent by simp
    qed
    with I(4) [OF d] show ?thesis by blast
  qed
  show "watch_inv add tw'"
    unfolding watch_inv_def by (intro conjI allI impI p1 p2 p3 [THEN conjunct1] p3 [THEN conjunct2])
qed

lemma add_child:
  assumes inv: "watch_inv add tw" and new: "watched tw (par @ [ch]) = None"
    and path: "tw_by_path tw' = AList.update (par @ [ch]) (par, ch) (tw_by_path tw)"
    and parent: "tw_by_parent tw' = (tw_by_parent tw)(par \<mapsto> pw')" "set (pw_children pw') = insert ch cs"
    and old: "case tw_by_parent tw par of
        None \<Rightarrow> cs = {} \<and> tw_by_wd tw (pw_wd pw') = None \<and> (\<exists>n. add n par = Some (pw_wd pw'))
      | Some pw \<Rightarrow> cs = set (pw_children pw) \<and> pw_wd pw' = pw_wd pw"
    and wd: "tw_by_wd tw' = (tw_by_wd tw)(pw_wd pw' \<mapsto> par)"
  shows "watch_inv add tw'" "watched tw' = (watched tw)(par @ [ch] \<mapsto> (par, ch))"
proof -
  note I = watch_invD [OF inv]
  show w: "watched tw' = (watched tw)(par @ [ch] \<mapsto> (par, ch))" by (simp add: path update_conv')
  have child: "(\<exists>pw. tw_by_parent tw' q = Some pw \<and> c \<in> set (pw_children pw)) \<longleftrightarrow>
      (\<exists>pw. tw_by_parent tw q = Some pw \<and> c \<in> set (pw_children pw)) \<or> (q, c) = (par, ch)" for q c
    unfolding parent(1) using parent(2) old by (auto split: option.splits)
  have p1: "watched tw' p = Some (q, c) \<longleftrightarrow>
      p = q @ [c] \<and> (\<exists>pw. tw_by_parent tw' q = Some pw \<and> c \<in> set (pw_children pw))" for p q c
    unfolding child w using I(1) [of p q c] by auto
  have p2: "pw_children pw \<noteq> [] \<and> tw_by_wd tw' (pw_wd pw) = Some q" if "tw_by_parent tw' q = Some pw" for q pw
  proof (cases "q = par")
    case True
    with that parent show ?thesis unfolding wd by auto
  next
    case False
    with that have q: "tw_by_parent tw q = Some pw" unfolding parent by simp
    have "pw_wd pw \<noteq> pw_wd pw'"
    proof
      assume eq: "pw_wd pw = pw_wd pw'"
      with I(2) [OF q] have "tw_by_wd tw (pw_wd pw') = Some q" by simp
      with old I(2) [of par] False show False by (auto split: option.splits)
    qed
    with I(2) [OF q] show ?thesis unfolding wd by simp
  qed
  have p3: "(\<exists>pw. tw_by_parent tw' q = Some pw \<and> pw_wd pw = d) \<and> (\<exists>n. add n q = Some d)"
    if "tw_by_wd tw' d = Some q" for d q
  proof (cases "d = pw_wd pw'")
    case True
    with that have q: "q = par" unfolding wd by simp
    have "\<exists>n. add n par = Some (pw_wd pw')"
    proof (cases "tw_by_parent tw par")
      case None
      with old show ?thesis by simp
    next
      case (Some pw)
      with old have "pw_wd pw' = pw_wd pw" by simp
      with I(2) [OF Some] I(4) show ?thesis by metis
    qed
    with True q show ?thesis unfolding parent by simp
  next
    case False
    with that have d: "tw_by_wd tw d = Some q" unfolding wd by simp
    from I(3) [OF d] obtain pw where pw: "tw_by_parent tw q = Some pw" "pw_wd pw = d" by blast
    with False old have "q \<noteq> par" by auto
    with pw I(4) [OF d] show ?thesis unfolding parent by simp
  qed
  show "watch_inv add tw'"
    unfolding watch_inv_def by (intro conjI allI impI p1 p2 p3 [THEN conjunct1] p3 [THEN conjunct2])
qed

lemma watch_path_inv:
  assumes "wd_unique add" and inv: "watch_inv add tw" and run: "watch_path ex add p tw = (r, tw')"
  shows "watch_inv add tw' \<and>
    dom (watched tw') = (if r = Inr True then insert p (dom (watched tw)) else dom (watched tw)) \<and>
    (\<forall>b. r = Inr b \<longrightarrow> p \<in> dom (watched tw'))"
proof (cases "watched tw p \<noteq> None \<or> \<not> ex p \<or> p = [] \<or> last p = ''..''")
  case True
  with run inv show ?thesis by (auto simp: watch_path_def split: if_splits)
next
  case False
  then have p: "watched tw (butlast p @ [last p]) = None" "p = butlast p @ [last p]" by (simp_all del: not_None_eq)
  show ?thesis
  proof (cases "tw_by_parent tw (butlast p)")
    case (Some pw)
    let ?pw = "pw\<lparr>pw_children := List.insert (last p) (pw_children pw)\<rparr>"
    have r: "r = Inr True" and tw': "tw' = tw\<lparr>tw_by_parent := (tw_by_parent tw)(butlast p \<mapsto> ?pw),
        tw_by_path := AList.update p (butlast p, last p) (tw_by_path tw)\<rparr>"
      using run False Some by (auto simp: watch_path_def Let_def)
    have "tw_by_wd tw = (tw_by_wd tw)(pw_wd ?pw \<mapsto> butlast p)"
      using watch_invD(2) [OF inv Some] by (simp add: fun_upd_idem)
    then have "watch_inv add tw'" "watched tw' = (watched tw)(butlast p @ [last p] \<mapsto> (butlast p, last p))"
      by (intro add_child [OF inv p(1), where cs = "set (pw_children pw)" and pw' = ?pw];
          use p(2) Some tw' in simp)+
    with r p(2) show ?thesis by simp
  next
    case None
    show ?thesis
    proof (cases "add (tw_calls tw) (butlast p)")
      case refused: None
      have "r = Inl (AddRefused (butlast p))" "tw' = tw\<lparr>tw_calls := Suc (tw_calls tw)\<rparr>"
        using run False None refused by (auto simp: watch_path_def Let_def)
      with inv show ?thesis by (simp add: watch_inv_def)
    next
      case (Some wd)
      let ?pw = "\<lparr>pw_wd = wd, pw_children = [last p]\<rparr>"
      have r: "r = Inr True" and tw': "tw' = tw\<lparr>tw_calls := Suc (tw_calls tw), tw_by_wd := (tw_by_wd tw)(wd \<mapsto> butlast p),
          tw_by_parent := (tw_by_parent tw)(butlast p \<mapsto> ?pw),
          tw_by_path := AList.update p (butlast p, last p) (tw_by_path tw)\<rparr>"
        using run False None Some by (auto simp: watch_path_def Let_def)
      have free: "tw_by_wd tw wd = None"
      proof (rule ccontr)
        assume "tw_by_wd tw wd \<noteq> None"
        then obtain q where q: "tw_by_wd tw wd = Some q" by blast
        with watch_invD(4) [OF inv] obtain n where "add n q = Some wd" by blast
        with Some assms(1) have "q = butlast p" unfolding wd_unique_def by blast
        with watch_invD(3) [OF inv q] None show False by simp
      qed
      have "watch_inv add tw'" "watched tw' = (watched tw)(butlast p @ [last p] \<mapsto> (butlast p, last p))"
        by (rule add_child [OF inv p(1), where cs = "{}" and pw' = ?pw];
            use p(2) None Some tw' free in auto)+
      with r p(2) show ?thesis by simp
    qed
  qed
qed

lemma unwatch_path_inv:
  assumes inv: "watch_inv add tw"
  shows "watch_inv add (unwatch_path p tw)" "watched (unwatch_path p tw) = (watched tw)(p := None)"
proof -
  have "watch_inv add (unwatch_path p tw) \<and> watched (unwatch_path p tw) = (watched tw)(p := None)"
  proof (cases "watched tw p")
    case None
    with inv show ?thesis by (simp add: unwatch_path_def fun_upd_idem)
  next
    case (Some pc)
    obtain par ch where pc: "pc = (par, ch)" by (cases pc)
    from watch_invD(1) [OF inv] Some pc obtain pw where p: "p = par @ [ch]"
      and pw: "tw_by_parent tw par = Some pw" "ch \<in> set (pw_children pw)" by blast
    have "watch_inv add (unwatch_path p tw)" "watched (unwatch_path p tw) = (watched tw)(par @ [ch] := None)"
      by (rule drop_child [OF inv pw]; use Some pc p pw in \<open>simp add: unwatch_path_def Let_def\<close>)+
    with p show ?thesis by simp
  qed
  then show "watch_inv add (unwatch_path p tw)" "watched (unwatch_path p tw) = (watched tw)(p := None)" by auto
qed

lemma clear_all_inv:
  assumes "watch_inv add tw"
  shows "watch_inv add (clear_all_watches tw)" "watched (clear_all_watches tw) = (\<lambda>_. None)"
proof -
  have "watch_inv add (fold unwatch_path ps tw) \<and> watched (fold unwatch_path ps tw) = watched tw |` (- set ps)"
    if "watch_inv add tw" for ps tw
    using that
  proof (induction ps arbitrary: tw)
    case (Cons p ps)
    note u = unwatch_path_inv [OF Cons.prems, of p]
    from Cons.IH [OF u(1)] u(2) show ?case
      by (auto simp: restrict_map_def fun_eq_iff)
  qed (simp add: restrict_map_def)
  from this [OF assms, of "map fst (tw_by_path tw)"]
  have "watch_inv add (clear_all_watches tw)"
    "watched (clear_all_watches tw) = watched tw |` (- dom (watched tw))"
    by (simp_all add: clear_all_watches_def dom_map_of_conv_image_fst)
  then show "watch_inv add (clear_all_watches tw)" "watched (clear_all_watches tw) = (\<lambda>_. None)"
    by (auto simp: restrict_map_def fun_eq_iff)
qed

lemma watch_each_inv:
  assumes "wd_unique add" "watch_inv add tw" "watch_each ex add ps tw = (r, tw')"
  shows "watch_inv add tw' \<and> dom (watched tw) \<subseteq> dom (watched tw') \<and>
    dom (watched tw') \<subseteq> dom (watched tw) \<union> set ps \<and>
    (r = Inr () \<longrightarrow> set ps \<subseteq> dom (watched tw'))"
  using assms(2,3)
proof (induction ps arbitrary: tw)
  case (Cons p ps)
  obtain r1 tw1 where w: "watch_path ex add p tw = (r1, tw1)" by fastforce
  note i = watch_path_inv [OF assms(1) Cons.prems(1) w]
  show ?case
  proof (cases r1)
    case (Inl e)
    with Cons.prems(2) w i show ?thesis by auto
  next
    case (Inr b)
    with Cons.prems(2) w have rest: "watch_each ex add ps tw1 = (r, tw')" by simp
    have "watch_inv add tw1" and p: "p \<in> dom (watched tw1)"
      and d: "dom (watched tw) \<subseteq> dom (watched tw1)" "dom (watched tw1) \<subseteq> insert p (dom (watched tw))"
      using i Inr by (auto split: if_splits)
    note IH = Cons.IH [OF this(1) rest]
    have "p \<in> dom (watched tw')" using IH p by blast
    then show ?thesis using IH d unfolding set_simps by blast
  qed
qed simp

lemma worker_cmd_inv: "wd_unique add \<Longrightarrow> watch_inv add tw \<Longrightarrow> watch_inv add (worker_cmd ex add c tw)"
proof (cases c)
  case (Watch p)
  assume "wd_unique add" "watch_inv add tw"
  from watch_path_inv [OF this prod.collapse [symmetric]] Watch show ?thesis by (simp add: worker_cmd_def)
next
  case (Unwatch p)
  assume "watch_inv add tw"
  from unwatch_path_inv(1) [OF this] Unwatch show ?thesis by (simp add: worker_cmd_def)
next
  case (Rearm ps)
  assume u: "wd_unique add" and i: "watch_inv add tw"
  from watch_each_inv [OF u clear_all_inv(1) [OF i] prod.collapse [symmetric]] i Rearm show ?thesis
    by (simp add: worker_cmd_def rearm_paths_def)
qed

text \<open>The path an event tears down: the named child of the directory of its descriptor.\<close>

definition torn_by :: "TeardownWatcher \<Rightarrow> InotifyEvent \<Rightarrow> path option" where
  "torn_by tw ev =
     (if ev_overflow ev \<or> \<not> (ev_delete ev \<or> ev_moved_from ev) \<or> event_name ev = [] then None
      else (case tw_by_wd tw (ev_wd ev) of
              None \<Rightarrow> None
            | Some par \<Rightarrow> if par @ [event_name ev] \<in> dom (watched tw) then Some (par @ [event_name ev]) else None))"

lemma drain_event_inv:
  assumes inv: "watch_inv add tw" and run: "drain_event ev (batch, tw) = (batch', tw')"
  shows "watch_inv add tw' \<and>
    dom (watched tw') = dom (watched tw) - set_option (torn_by tw ev) \<and>
    tb_torn_down_paths batch' = tb_torn_down_paths batch @ (case torn_by tw ev of None \<Rightarrow> [] | Some p \<Rightarrow> [p]) \<and>
    tb_overflow batch' = (tb_overflow batch \<or> ev_overflow ev)"
proof (cases "ev_overflow ev \<or> \<not> (ev_delete ev \<or> ev_moved_from ev) \<or> event_name ev = [] \<or>
    tw_by_wd tw (ev_wd ev) = None")
  case True
  with run inv show ?thesis
    by (auto simp: drain_event_def torn_by_def Let_def split: if_splits option.splits)
next
  case False
  then obtain par where wd: "tw_by_wd tw (ev_wd ev) = Some par" by auto
  let ?ch = "event_name ev"
  from watch_invD(3) [OF inv wd] obtain pw where pw: "tw_by_parent tw par = Some pw" by blast
  have mem: "par @ [?ch] \<in> dom (watched tw) \<longleftrightarrow> ?ch \<in> set (pw_children pw)"
  proof
    assume "par @ [?ch] \<in> dom (watched tw)"
    then obtain q c where "watched tw (par @ [?ch]) = Some (q, c)" by auto
    with watch_invD(1) [OF inv, of "par @ [?ch]" q c] pw show "?ch \<in> set (pw_children pw)" by auto
  next
    assume "?ch \<in> set (pw_children pw)"
    with watch_invD(1) [OF inv, of "par @ [?ch]" par ?ch] pw show "par @ [?ch] \<in> dom (watched tw)" by auto
  qed
  show ?thesis
  proof (cases "?ch \<in> set (pw_children pw)")
    case no: False
    with False run wd pw inv mem show ?thesis
      by (auto simp: drain_event_def torn_by_def Let_def)
  next
    case True
    then have torn: "torn_by tw ev = Some (par @ [?ch])"
      using False wd mem by (simp add: torn_by_def)
    have b: "batch' = batch\<lparr>tb_torn_down_paths := tb_torn_down_paths batch @ [par @ [?ch]]\<rparr>"
      using run False wd pw True by (auto simp: drain_event_def Let_def)
    have "watch_inv add tw'" "watched tw' = (watched tw)(par @ [?ch] := None)"
      by (rule drop_child [OF inv pw True]; use run False wd pw True in \<open>auto simp: drain_event_def Let_def\<close>)+
    with torn b False show ?thesis by simp
  qed
qed

lemma drain_event_parent:
  assumes "watch_inv add tw" "drain_event ev (batch, tw) = (batch', tw')" "tw_by_parent tw' par = Some pw'"
  shows "\<exists>pw. tw_by_parent tw par = Some pw \<and> pw_wd pw' = pw_wd pw"
  using assms(2,3)
  by (auto simp: drain_event_def Let_def fun_upd_apply split: if_splits option.splits)

lemma torn_by_persists:
  assumes inv: "watch_inv add tw" and run: "drain_event ev (batch, tw) = (batch', tw')"
    and torn: "torn_by tw ev' = Some p" and still: "p \<in> dom (watched tw')"
  shows "torn_by tw' ev' = Some p"
proof -
  from torn obtain par where wd: "tw_by_wd tw (ev_wd ev') = Some par" and p: "p = par @ [event_name ev']"
    and ev: "\<not> ev_overflow ev'" "ev_delete ev' \<or> ev_moved_from ev'" "event_name ev' \<noteq> []"
    by (auto simp: torn_by_def split: if_splits option.splits)
  have inv': "watch_inv add tw'" using drain_event_inv [OF inv run] by blast
  from still obtain q c where "watched tw' p = Some (q, c)" by auto
  with watch_invD(1) [OF inv', of p q c] p obtain pw' where pw': "tw_by_parent tw' par = Some pw'" by auto
  from drain_event_parent [OF inv run pw'] obtain pw where pw: "tw_by_parent tw par = Some pw" "pw_wd pw' = pw_wd pw"
    by blast
  from watch_invD(3) [OF inv wd] pw(1) have "pw_wd pw = ev_wd ev'" by auto
  with watch_invD(2) [OF inv' pw'] pw(2) have "tw_by_wd tw' (ev_wd ev') = Some par" by simp
  with ev still p show ?thesis by (simp add: torn_by_def)
qed

text \<open>What a drain may report: registered paths, each once, which it then forgets.\<close>

definition drained :: "TeardownWatcher \<Rightarrow> TeardownBatch \<Rightarrow> TeardownWatcher \<Rightarrow> bool" where
  "drained tw batch tw' \<longleftrightarrow>
     distinct (tb_torn_down_paths batch) \<and> set (tb_torn_down_paths batch) \<subseteq> dom (watched tw) \<and>
     dom (watched tw') = dom (watched tw) - set (tb_torn_down_paths batch)"

lemma drained_event:
  assumes "drained tw0 batch tw" "watch_inv add tw" "drain_event ev (batch, tw) = (batch', tw')"
  shows "drained tw0 batch' tw' \<and> watch_inv add tw' \<and>
    set (tb_torn_down_paths batch) \<subseteq> set (tb_torn_down_paths batch')"
proof -
  note d = drain_event_inv [OF assms(2,3)]
  show ?thesis
  proof (cases "torn_by tw ev")
    case None
    with d assms(1) show ?thesis by (simp add: drained_def)
  next
    case (Some p)
    then have p: "p \<in> dom (watched tw)" by (auto simp: torn_by_def split: if_splits option.splits)
    have t: "tb_torn_down_paths batch' = tb_torn_down_paths batch @ [p]" using d Some by simp
    have w: "dom (watched tw') = dom (watched tw) - {p}" using d Some by simp
    have "drained tw0 batch' tw'"
      using p assms(1) unfolding drained_def t w by auto
    with d t show ?thesis by auto
  qed
qed

lemma drained_fold:
  assumes "drained tw0 batch tw" "watch_inv add tw" "fold drain_event evs (batch, tw) = (batch', tw')"
  shows "drained tw0 batch' tw' \<and> watch_inv add tw' \<and>
    set (tb_torn_down_paths batch) \<subseteq> set (tb_torn_down_paths batch') \<and>
    (\<forall>ev p. ev \<in> set evs \<longrightarrow> torn_by tw ev = Some p \<longrightarrow> p \<in> set (tb_torn_down_paths batch'))"
  using assms
proof (induction evs arbitrary: batch tw)
  case (Cons ev evs)
  obtain b1 tw1 where e: "drain_event ev (batch, tw) = (b1, tw1)" by fastforce
  note d1 = drained_event [OF Cons.prems(1,2) e]
  have rest: "fold drain_event evs (b1, tw1) = (batch', tw')" using Cons.prems(3) e by simp
  note IH = Cons.IH [OF d1 [THEN conjunct1] d1 [THEN conjunct2, THEN conjunct1] rest]
  note inv = drain_event_inv [OF Cons.prems(2) e]
  have "p \<in> set (tb_torn_down_paths batch')" if ev': "ev' \<in> set (ev # evs)" and torn: "torn_by tw ev' = Some p" for ev' p
  proof (cases "p \<in> dom (watched tw1)")
    case True
    from torn_by_persists [OF Cons.prems(2) e torn True] have t1: "torn_by tw1 ev' = Some p" .
    have "ev' \<noteq> ev"
    proof
      assume "ev' = ev"
      with inv torn True show False by simp
    qed
    with ev' t1 IH show ?thesis by auto
  next
    case False
    have "p \<in> dom (watched tw)" using torn by (auto simp: torn_by_def split: if_splits option.splits)
    with False inv have "torn_by tw ev = Some p" by (cases "torn_by tw ev") auto
    with inv IH show ?thesis by auto
  qed
  with IH d1 show ?case by blast
qed simp

lemma drained_reads:
  assumes "drained tw0 batch tw" "watch_inv add tw" "drain_reads reads (batch, tw) = (Inr batch', tw')"
  shows "drained tw0 batch' tw' \<and> watch_inv add tw' \<and>
    set (tb_torn_down_paths batch) \<subseteq> set (tb_torn_down_paths batch')"
  using assms
proof (induction reads "(batch, tw)" arbitrary: batch tw rule: drain_reads.induct)
  case (4 evs rs batch tw)
  obtain b1 tw1 where f: "fold drain_event evs (batch, tw) = (b1, tw1)" by fastforce
  note d = drained_fold [OF "4.prems"(1,2) f]
  show ?case
  proof (cases "evs = [] \<or> tb_overflow b1")
    case True
    with "4.prems"(3) f d show ?thesis by auto
  next
    case False
    with "4.prems"(3) f have rest: "drain_reads rs (b1, tw1) = (Inr batch', tw')" by simp
    from "4.hyps" [OF f [symmetric] refl False d [THEN conjunct1] d [THEN conjunct2, THEN conjunct1] rest] d
    show ?thesis by blast
  qed
qed auto

text \<open>
  C32. Draining the inotify queue reports teardowns faithfully: every reported path was registered,
  none is reported twice, exactly the reported paths are forgotten, the watch tables stay
  consistent, and every event of the first read that names a registered child is reported.
\<close>

theorem drain_events_exact:
  assumes "watch_inv add tw" "drain_events (Events evs # rs) tw = (Inr batch, tw')"
  shows "watch_inv add tw' \<and> distinct (tb_torn_down_paths batch) \<and>
    set (tb_torn_down_paths batch) \<subseteq> dom (watched tw) \<and>
    dom (watched tw') = dom (watched tw) - set (tb_torn_down_paths batch) \<and>
    (\<forall>ev p. ev \<in> set evs \<longrightarrow> torn_by tw ev = Some p \<longrightarrow> p \<in> set (tb_torn_down_paths batch))"
proof -
  have start: "drained tw batch_empty tw" by (simp add: drained_def batch_empty_def)
  obtain b1 tw1 where f: "fold drain_event evs (batch_empty, tw) = (b1, tw1)" by fastforce
  note d = drained_fold [OF start assms(1) f]
  have "drained tw batch tw' \<and> watch_inv add tw' \<and> set (tb_torn_down_paths b1) \<subseteq> set (tb_torn_down_paths batch)"
  proof (cases "evs = [] \<or> tb_overflow b1")
    case True
    with assms(2) f d show ?thesis by (auto simp: drain_events_def)
  next
    case False
    with assms(2) f have "drain_reads rs (b1, tw1) = (Inr batch, tw')" by (simp add: drain_events_def)
    from drained_reads [OF d [THEN conjunct1] d [THEN conjunct2, THEN conjunct1] this] show ?thesis .
  qed
  with d show ?thesis unfolding drained_def by blast
qed

definition demo_add :: inotify_add where
  "demo_add n p = (if p = [''pod''] then Some 1 else None)"

definition demo_watcher :: TeardownWatcher where
  "demo_watcher = snd (watch_path (\<lambda>_. True) demo_add [''pod'', ''c''] watcher_new)"

definition demo_event :: InotifyEvent where
  "demo_event = \<lparr>ev_wd = 1, ev_overflow = False, ev_delete = True, ev_moved_from = False, ev_name = Some (str_bytes ''c'')\<rparr>"

lemma watcher_new_inv: "watch_inv add watcher_new"
  by (simp add: watch_inv_def watcher_new_def)

lemma demo_watcher_inv: "wd_unique demo_add" "watch_inv demo_add demo_watcher" "dom (watched demo_watcher) = {[''pod'', ''c'']}"
proof -
  show u: "wd_unique demo_add" by (simp add: wd_unique_def demo_add_def)
  have w: "watch_path (\<lambda>_. True) demo_add [''pod'', ''c''] watcher_new = (Inr True, demo_watcher)"
    by (simp add: demo_watcher_def watch_path_def watcher_new_def demo_add_def Let_def)
  from watch_path_inv [OF u watcher_new_inv w] show "watch_inv demo_add demo_watcher"
    "dom (watched demo_watcher) = {[''pod'', ''c'']}"
    by (simp_all add: watcher_new_def)
qed

theorem drain_events_exact_witness:
  "\<exists>batch tw'. drain_events [Events [demo_event]] demo_watcher = (Inr batch, tw') \<and>
     [''pod'', ''c''] \<in> set (tb_torn_down_paths batch)"
proof -
  have name: "event_name demo_event = ''c''"
  proof -
    have "utf8_valid (str_bytes ''c'')" by (simp add: utf8_valid_ascii_Cons str_bytes_def)
    then show ?thesis by (simp add: event_name_def demo_event_def from_utf8_lossy_valid)
  qed
  have wd: "tw_by_wd demo_watcher 1 = Some [''pod'']"
    by (simp add: demo_watcher_def watch_path_def watcher_new_def demo_add_def Let_def)
  have torn: "torn_by demo_watcher demo_event = Some [''pod'', ''c'']"
  proof -
    have ev: "\<not> ev_overflow demo_event" "ev_delete demo_event" "ev_wd demo_event = 1"
      by (simp_all add: demo_event_def)
    show ?thesis unfolding torn_by_def name ev(3) wd using ev demo_watcher_inv(3) by simp
  qed
  obtain batch tw' where run: "drain_events [Events [demo_event]] demo_watcher = (Inr batch, tw')"
    by (cases "fold drain_event [demo_event] (batch_empty, demo_watcher)") (auto simp: drain_events_def)
  from drain_events_exact [OF demo_watcher_inv(2) run] torn run show ?thesis by auto
qed

text \<open>
  C34. Re-arming after a resync can leave live cgroups unwatched: it drops every watch first and
  stops at the first path that cannot be watched, so one vanished cgroup at the head of the list
  unwatches all the others, which exist and were watched before.
\<close>

theorem rearm_loses_live_watches:
  assumes "watch_inv add tw" "\<not> ex gone"
  shows "\<exists>tw'. rearm_paths ex add (gone # live) tw = (Inl (PathMissing gone), tw') \<and> dom (watched tw') = {}"
proof -
  note c = clear_all_inv [OF assms(1)]
  have "watch_path ex add gone (clear_all_watches tw) = (Inl (PathMissing gone), clear_all_watches tw)"
    using assms(2) c(2) by (simp add: watch_path_def)
  with c(2) show ?thesis by (simp add: rearm_paths_def)
qed

theorem rearm_loses_live_watches_witness:
  "\<exists>tw'. dom (watched demo_watcher) = {[''pod'', ''c'']} \<and>
     rearm_paths (\<lambda>p. p = [''pod'', ''c'']) demo_add [[''pod'', ''b''], [''pod'', ''c'']] demo_watcher =
       (Inl (PathMissing [''pod'', ''b'']), tw') \<and> dom (watched tw') = {}"
  using rearm_loses_live_watches [OF demo_watcher_inv(2), of "\<lambda>p. p = [''pod'', ''c'']" "[''pod'', ''b'']" "[[''pod'', ''c'']]"]
    demo_watcher_inv(3) by simp

lemma drain_reads_inv: "watch_inv add tw \<Longrightarrow> watch_inv add (snd (drain_reads reads (batch, tw)))"
proof (induction reads "(batch, tw)" arbitrary: batch tw rule: drain_reads.induct)
  case (4 evs rs batch tw)
  obtain b1 tw1 where f: "fold drain_event evs (batch, tw) = (b1, tw1)" by fastforce
  have "watch_inv add (snd (fold drain_event evs s))" if "watch_inv add (snd s)" for s
    using that
  proof (induction evs arbitrary: s)
    case (Cons ev evs)
    obtain b tw where "s = (b, tw)" by (cases s)
    moreover obtain b' tw' where "drain_event ev (b, tw) = (b', tw')" by fastforce
    ultimately show ?case using Cons drain_event_inv [of add tw ev b b' tw'] by simp
  qed simp
  from this [of "(batch, tw)"] "4.prems" f have inv1: "watch_inv add tw1" by simp
  show ?case
  proof (cases "evs = [] \<or> tb_overflow b1")
    case False
    from "4.hyps" [OF f [symmetric] refl False inv1] f False show ?thesis by simp
  qed (use f inv1 in auto)
qed auto

text \<open>
  C33. Whatever commands it is sent and whatever inotify reports, the worker keeps its tables
  consistent: the registered paths are exactly the children of the watched parents, every watch
  has a child, and descriptors and parents correspond one to one, provided inotify never gives
  one descriptor for two directories.
\<close>

theorem worker_round_consistent:
  assumes "wd_unique add" "watch_inv add tw"
  shows "watch_inv add (snd (worker_round ex add cmds polled tw))"
proof -
  have cmds: "watch_inv add (fold (worker_cmd ex add) cmds tw)"
    using assms(2)
  proof (induction cmds arbitrary: tw)
    case (Cons c cmds)
    from Cons.IH [OF worker_cmd_inv [OF assms(1) Cons.prems]] show ?case by simp
  qed simp
  show ?thesis
  proof (cases polled)
    case None
    with cmds show ?thesis by (simp add: worker_round_def)
  next
    case (Some reads)
    obtain r tw2 where d: "drain_events reads (fold (worker_cmd ex add) cmds tw) = (r, tw2)" by fastforce
    have "watch_inv add tw2"
      using drain_reads_inv [OF cmds, of reads batch_empty] d by (simp add: drain_events_def)
    with Some d show ?thesis by (cases r) (simp_all add: worker_round_def Let_def)
  qed
qed

theorem worker_round_consistent_witness:
  "watch_inv demo_add (snd (worker_round (\<lambda>_. True) demo_add [Watch [''pod'', ''b''], Unwatch [''pod'', ''c'']]
     (Some [Events [demo_event], WouldBlock]) demo_watcher))"
  by (rule worker_round_consistent [OF demo_watcher_inv(1,2)])

end
