(* ===== verification/Path_Deny.thy ===== *)
theory Path_Deny
  imports Identity_Allow
begin

section \<open>The path deny list: \<open>apps/agent-ebpf-sensor/src/path_deny.rs\<close>\<close>

text \<open>
  The bootstrap prefixes, the matchers, the writer of the two BPF arrays and the translation
  of a bundle into entries. The writer is modelled call by call: its \<open>faults\<close> say which map
  writes the kernel refuses, and a statement about its final state for every \<open>faults\<close> covers
  every state in which a concurrent exec can find the maps.
\<close>

definition POLICY_STALE_AFTER :: duration where "POLICY_STALE_AFTER = from_secs (5 * 60)"
definition POLICY_SYNC_INTERVAL :: duration where "POLICY_SYNC_INTERVAL = from_secs 30"

record PolicySyncState =
  last_success :: instant
  last_version :: string
  stale :: bool

definition fresh_sync_state :: "string \<Rightarrow> instant \<Rightarrow> PolicySyncState" where
  "fresh_sync_state version now = \<lparr>last_success = now, last_version = version, stale = False\<rparr>"

definition mark_success :: "string \<Rightarrow> instant \<Rightarrow> PolicySyncState \<Rightarrow> PolicySyncState" where
  "mark_success version now st = st\<lparr>last_success := now, last_version := version, stale := False\<rparr>"

definition refresh_stale_flag :: "instant \<Rightarrow> PolicySyncState \<Rightarrow> PolicySyncState" where
  "refresh_stale_flag now st =
     st\<lparr>stale := POLICY_STALE_AFTER < duration_since now (last_success st)\<rparr>"

subsection \<open>Matching\<close>

definition path_starts_with :: "bytes \<Rightarrow> bytes \<Rightarrow> bool" where
  "path_starts_with path pre =
     (if length path < length pre then False else list_all (\<lambda>(l, r). l = r) (zip path pre))"

definition legacy_hardcoded_is_blacklisted :: "bytes \<Rightarrow> bool" where
  "legacy_hardcoded_is_blacklisted path \<longleftrightarrow>
     path_starts_with path (str_bytes ''/tmp/'') \<or> path_starts_with path (str_bytes ''/dev/shm/'')
     \<or> path_starts_with path (str_bytes ''/var/tmp/'')"

definition map_backed_is_blacklisted :: "bytes \<Rightarrow> PathDenyEntry list \<Rightarrow> bool" where
  "map_backed_is_blacklisted path entries \<longleftrightarrow> list_ex (\<lambda>e. entry_matches e path) entries"

subsection \<open>Entries\<close>

datatype deny_error =
  BadPrefix bytes | EmptyEntries | TooManyEntries nat | InvalidEntryLen nat | ListWrite nat
  | CountWrite | ClearWrite nat | BundleError bundle_error

definition too_many :: "'a list \<Rightarrow> bool" where
  "too_many xs \<longleftrightarrow> PATH_DENY_MAX_ENTRIES < unat (of_nat (length xs) :: u32)"

definition bootstrap_entries :: "deny_error + PathDenyEntry list" where
  "bootstrap_entries =
     and_then (try_map (\<lambda>p. ok_or (from_prefix p) (BadPrefix p)) BOOTSTRAP_PATH_DENY_PREFIXES) (\<lambda>out.
     if out = [] then Inl EmptyEntries
     else if too_many out then Inl (TooManyEntries (length out))
     else Inr out)"

definition valid_len :: "PathDenyEntry \<Rightarrow> bool" where
  "valid_len e \<longleftrightarrow> \<not> (pd_len e = 0 \<or> PATH_DENY_KEY_BYTES < unat (pd_len e))"

definition apply_deny_entries ::
  "faults \<Rightarrow> PathDenyEntry list \<Rightarrow> KernelMaps \<Rightarrow> (deny_error + unit) \<times> KernelMaps" where
  "apply_deny_entries flt entries k =
     (if entries = [] then (Inl EmptyEntries, k)
      else if too_many entries then (Inl (TooManyEntries (length entries)), k)
      else case store_slots valid_len (deny_list_set flt) (enumerate 0 entries) k of
        (Inl (BadValue i), k1) \<Rightarrow> (Inl (InvalidEntryLen i), k1)
      | (Inl (WriteFailed i), k1) \<Rightarrow> (Inl (ListWrite i), k1)
      | (Inr _, k1) \<Rightarrow>
          (let count = (of_nat (length entries) :: u32) in
           case deny_count_set flt 0 count k1 of
             (Inl _, k2) \<Rightarrow> (Inl CountWrite, k2)
           | (Inr _, k2) \<Rightarrow>
               (case store_slots (\<lambda>_. True) (deny_list_set flt)
                       (map (\<lambda>i. (i, path_deny_entry_default)) [unat count ..< PATH_DENY_MAX_ENTRIES]) k2 of
                  (Inl (BadValue i), k3) \<Rightarrow> (Inl (ClearWrite i), k3)
                | (Inl (WriteFailed i), k3) \<Rightarrow> (Inl (ClearWrite i), k3)
                | (Inr _, k3) \<Rightarrow> (Inr (), k3))))"

definition bootstrap_deny_maps ::
  "faults \<Rightarrow> instant \<Rightarrow> KernelMaps \<Rightarrow> (deny_error + PolicySyncState) \<times> KernelMaps" where
  "bootstrap_deny_maps flt now k =
     (case bootstrap_entries of
        Inl e \<Rightarrow> (Inl e, k)
      | Inr entries \<Rightarrow> (case apply_deny_entries flt entries k of
            (Inl e, k') \<Rightarrow> (Inl e, k')
          | (Inr _, k') \<Rightarrow> (Inr (fresh_sync_state ''bootstrap'' now), k')))"

text \<open>The loop of \<open>entries_from_bundle_json\<close> over the parsed prefixes.\<close>

definition entries_of_prefixes :: "string list \<Rightarrow> deny_error + PathDenyEntry list" where
  "entries_of_prefixes ps =
     try_map (\<lambda>p. ok_or (from_prefix (str_bytes p)) (BadPrefix (str_bytes p))) ps"

definition entries_from_bundle_json ::
  "(string \<Rightarrow> BundleDoc option) \<Rightarrow> (string \<Rightarrow> system_time option) \<Rightarrow> system_time \<Rightarrow> string \<Rightarrow>
   deny_error + (string \<times> PathDenyEntry list)" where
  "entries_from_bundle_json from_json rfc3339 now body =
     (case parse_policy_bundle_json_at from_json rfc3339 body now of
        Inl e \<Rightarrow> Inl (BundleError e)
      | Inr parsed \<Rightarrow>
          and_then (entries_of_prefixes (ppb_deny_path_prefixes parsed)) (\<lambda>entries.
          Inr (ppb_version parsed, entries)))"

subsection \<open>What matching means\<close>

lemma list_all_zip_starts_with:
  "length p \<le> length path \<Longrightarrow> list_all (\<lambda>(l, r). l = r) (zip path p) \<longleftrightarrow> starts_with path p"
  by (induction path p rule: list_induct2') auto

lemma path_starts_with_iff [simp]: "path_starts_with path p \<longleftrightarrow> starts_with path p"
  by (auto simp: path_starts_with_def list_all_zip_starts_with not_less dest: starts_with_length)

lemma map_backed_iff:
  "list_all wf_entry es \<Longrightarrow>
   map_backed_is_blacklisted path es \<longleftrightarrow> (\<exists>e \<in> set es. starts_with path (entry_prefix e))"
  by (auto simp: map_backed_is_blacklisted_def list_ex_iff list_all_iff entry_matches_iff)

lemma entries_of_prefixes_Inr:
  assumes "entries_of_prefixes ps = Inr es"
  shows "list_all wf_entry es" "map entry_prefix es = map str_bytes ps" "length es = length ps"
proof -
  from assms have r: "list_all2 (\<lambda>p e. from_prefix (str_bytes p) = Some e) ps es"
    by (simp add: entries_of_prefixes_def try_map_Inr)
  show "list_all wf_entry es" "map entry_prefix es = map str_bytes ps"
    using r by (induction rule: list_all2_induct) (simp_all add: from_prefix_wf)
  show "length es = length ps" using r by (simp add: list_all2_lengthD)
qed

lemma entries_of_prefixes_total:
  assumes "\<forall>p \<in> set ps. p \<noteq> [] \<and> length p \<le> PATH_DENY_KEY_BYTES"
  shows "\<exists>es. entries_of_prefixes ps = Inr es"
proof -
  have "entries_of_prefixes ps = Inr (map (\<lambda>p. the (from_prefix (str_bytes p))) ps)"
    unfolding entries_of_prefixes_def
    by (rule try_map_total) (use assms in \<open>auto simp: from_prefix_def\<close>)
  then show ?thesis ..
qed

lemma bootstrap_entries_ok:
  obtains es where "bootstrap_entries = Inr es" "list_all wf_entry es"
    "map entry_prefix es = BOOTSTRAP_PATH_DENY_PREFIXES"
proof -
  let ?bs = "[''/tmp/'', ''/dev/shm/'', ''/var/tmp/'']"
  obtain es where es: "entries_of_prefixes ?bs = Inr es"
    using entries_of_prefixes_total [of ?bs] by (auto simp: PATH_DENY_KEY_BYTES_def)
  note facts = entries_of_prefixes_Inr [OF es]
  have "try_map (\<lambda>p. ok_or (from_prefix p) (BadPrefix p)) BOOTSTRAP_PATH_DENY_PREFIXES = Inr es"
    using es try_map_map [of "\<lambda>p. ok_or (from_prefix p) (BadPrefix p)" str_bytes ?bs]
    by (simp only: entries_of_prefixes_def BOOTSTRAP_PATH_DENY_PREFIXES_def list.map)
  moreover have "es \<noteq> []" "\<not> too_many es"
    using facts(3) by (auto simp: too_many_def PATH_DENY_MAX_ENTRIES_def)
  ultimately have "bootstrap_entries = Inr es"
    by (simp add: bootstrap_entries_def)
  with facts show thesis
    by (intro that) (simp_all add: BOOTSTRAP_PATH_DENY_PREFIXES_def)
qed

subsection \<open>The writer\<close>

lemma distinct_fst_enumerate [simp]: "distinct (map fst (enumerate n xs))"
  by (simp add: map_fst_enumerate)

lemma map_of_enumerate0: "map_of (enumerate 0 xs) j = (if j < length xs then Some (xs ! j) else None)"
proof (cases "j < length xs")
  case True
  then have "(j, xs ! j) \<in> set (enumerate 0 xs)"
    by (simp add: in_set_enumerate_eq)
  with True show ?thesis by simp
next
  case False
  then have "j \<notin> fst ` set (enumerate 0 xs)"
    by (force simp: in_set_enumerate_eq)
  with False show ?thesis by (simp add: map_of_eq_None_iff)
qed

lemma map_of_const_slots:
  "map_of (map (\<lambda>i. (i, d)) [a..<b]) j = (if a \<le> j \<and> j < b then Some d else None)"
  by (auto simp: map_of_eq_None_iff image_iff map_of_map_restrict)

text \<open>The four ways a run of the writer ends.\<close>

lemma apply_deny_entries_cases:
  assumes "apply_deny_entries flt entries k = (r, k')"
  obtains (rejected) e where "r = Inl e" "k' = k"
  | (slots) e e' where "r = Inl e" "entries \<noteq> []"
      "store_slots valid_len (deny_list_set flt) (enumerate 0 entries) k = (Inl e', k')"
  | (count) e' k1 where "r = Inl CountWrite" "entries \<noteq> []"
      "store_slots valid_len (deny_list_set flt) (enumerate 0 entries) k = (Inr (), k1)"
      "deny_count_set flt 0 (of_nat (length entries)) k1 = (Inl e', k')"
  | (clear) k1 k2 r3 where "entries \<noteq> []" "r = Inr () \<longrightarrow> r3 = Inr ()"
      "store_slots valid_len (deny_list_set flt) (enumerate 0 entries) k = (Inr (), k1)"
      "deny_count_set flt 0 (of_nat (length entries)) k1 = (Inr (), k2)"
      "store_slots (\<lambda>_. True) (deny_list_set flt) (map (\<lambda>i. (i, path_deny_entry_default))
         [unat (of_nat (length entries) :: u32) ..< PATH_DENY_MAX_ENTRIES]) k2 = (r3, k')"
  using assms unfolding apply_deny_entries_def Let_def
  by (auto split: if_splits prod.splits sum.splits store_error.splits)

lemma slots_written:
  assumes "wf_maps k"
    and "store_slots valid_len (deny_list_set flt) (enumerate 0 entries) k = (Inr u, k1)"
  shows "length entries \<le> PATH_DENY_MAX_ENTRIES" "list_all valid_len entries"
    "PATH_DENY_LIST k1 = entries @ drop (length entries) (PATH_DENY_LIST k)"
proof -
  note ok = deny_list.store_ok [OF assms(2) distinct_fst_enumerate]
  have in_range: "i < PATH_DENY_MAX_ENTRIES" if "i < length entries" for i
  proof -
    have "i \<in> fst ` set (enumerate 0 entries)"
      using that by (simp add: list.set_map [symmetric] map_fst_enumerate del: list.set_map)
    with ok assms(1) show ?thesis by (auto simp: wf_maps_def not_le)
  qed
  show len: "length entries \<le> PATH_DENY_MAX_ENTRIES"
    using in_range [of PATH_DENY_MAX_ENTRIES] by (meson less_irrefl not_le)
  have "snd ` set (enumerate 0 entries) = set entries"
    by (metis list.set_map map_snd_enumerate)
  with ok show "list_all valid_len entries" by (simp add: list_all_iff)
  have "array_get (PATH_DENY_LIST k1) = array_get (entries @ drop (length entries) (PATH_DENY_LIST k))"
    using ok len assms(1)
    by (auto simp: fun_eq_iff map_of_enumerate0 array_get_def nth_append wf_maps_def)
  then show "PATH_DENY_LIST k1 = entries @ drop (length entries) (PATH_DENY_LIST k)"
    by (simp add: array_get_ext)
qed

lemma unat_len_entries: "length entries \<le> PATH_DENY_MAX_ENTRIES \<Longrightarrow>
  unat (of_nat (length entries) :: u32) = length entries"
  by (simp add: PATH_DENY_MAX_ENTRIES_def unat_of_nat)

lemma count_written:
  assumes "wf_maps k" "deny_count_set flt 0 c k = (r, k')"
  shows "wf_maps k'" "PATH_DENY_LIST k' = PATH_DENY_LIST k" "ID_ALLOW_CGROUP k' = ID_ALLOW_CGROUP k"
    "ID_EXCEPT_VALID k' = ID_EXCEPT_VALID k" "TELEMETRY_STATS k' = TELEMETRY_STATS k"
    "TELEM_RINGBUF k' = TELEM_RINGBUF k"
    "r = Inr () \<Longrightarrow> PATH_DENY_COUNT k' = [c]" "r = Inl e \<Longrightarrow> PATH_DENY_COUNT k' = PATH_DENY_COUNT k"
  using assms by (cases "PATH_DENY_COUNT k"; auto simp: deny_count_set_def map_call_def array_set_def
      wf_maps_def Let_def split: option.splits if_splits)+

lemma slots_frame:
  assumes "wf_maps k" "store_slots chk (deny_list_set flt) xs k = (r, k')"
  shows "wf_maps k'" "PATH_DENY_COUNT k' = PATH_DENY_COUNT k" "ID_ALLOW_CGROUP k' = ID_ALLOW_CGROUP k"
    "ID_EXCEPT_VALID k' = ID_EXCEPT_VALID k" "TELEMETRY_STATS k' = TELEMETRY_STATS k"
    "TELEM_RINGBUF k' = TELEM_RINGBUF k"
proof -
  note rest = deny_list.store_rest [OF assms(2)]
  then show "PATH_DENY_COUNT k' = PATH_DENY_COUNT k" "ID_ALLOW_CGROUP k' = ID_ALLOW_CGROUP k"
    "ID_EXCEPT_VALID k' = ID_EXCEPT_VALID k" "TELEMETRY_STATS k' = TELEMETRY_STATS k"
    "TELEM_RINGBUF k' = TELEM_RINGBUF k"
    by simp_all
  have "length (PATH_DENY_LIST k') = length (PATH_DENY_LIST k)"
    using deny_list.store_dom [OF assms(2)]
    by simp (metis linorder_le_cases order_antisym order_refl)
  with rest assms(1) show "wf_maps k'" by (simp add: wf_maps_def)
qed

lemma slots_cleared:
  assumes "wf_maps k" "n \<le> PATH_DENY_MAX_ENTRIES"
    and "store_slots (\<lambda>_. True) (deny_list_set flt)
           (map (\<lambda>i. (i, path_deny_entry_default)) [n ..< PATH_DENY_MAX_ENTRIES]) k = (r, k')"
  shows "take n (PATH_DENY_LIST k') = take n (PATH_DENY_LIST k)"
    "r = Inr () \<Longrightarrow> drop n (PATH_DENY_LIST k') = replicate (PATH_DENY_MAX_ENTRIES - n) path_deny_entry_default"
proof -
  let ?xs = "map (\<lambda>i. (i, path_deny_entry_default)) [n ..< PATH_DENY_MAX_ENTRIES]"
  have dist: "distinct (map fst ?xs)" by (simp add: comp_def)
  have len: "length (PATH_DENY_LIST k) = PATH_DENY_MAX_ENTRIES"
    "length (PATH_DENY_LIST k') = PATH_DENY_MAX_ENTRIES"
    using assms(1) slots_frame(1) [OF assms(1,3)] by (simp_all add: wf_maps_def)
  show "take n (PATH_DENY_LIST k') = take n (PATH_DENY_LIST k)"
  proof (rule nth_equalityI)
    fix j assume "j < length (take n (PATH_DENY_LIST k'))"
    then show "take n (PATH_DENY_LIST k') ! j = take n (PATH_DENY_LIST k) ! j"
      using deny_list.store_old_or_new [OF assms(3) dist, of j] assms(2) len
      by (auto simp: map_of_const_slots)
  qed (use len in simp)
  show "drop n (PATH_DENY_LIST k') = replicate (PATH_DENY_MAX_ENTRIES - n) path_deny_entry_default"
    if "r = Inr ()"
  proof (rule nth_equalityI)
    note ok = deny_list.store_ok [OF assms(3) [unfolded that] dist]
    fix j assume "j < length (drop n (PATH_DENY_LIST k'))"
    then show "drop n (PATH_DENY_LIST k') ! j =
        replicate (PATH_DENY_MAX_ENTRIES - n) path_deny_entry_default ! j"
      using fun_cong [OF ok [THEN conjunct2, THEN conjunct2], of "n + j"] len
      by (simp add: map_of_const_slots less_diff_conv add.commute split: if_splits)
  qed (use len in simp)
qed

text \<open>
  The summary of a run: on success the arrays hold exactly the entries; in every case either
  the count is untouched and each slot holds its old or its new entry, or the count and all
  counted slots are the new ones.
\<close>

lemma apply_deny_entries_frame:
  assumes "wf_maps k" "apply_deny_entries flt entries k = (r, k')"
  shows "wf_maps k'" "ID_ALLOW_CGROUP k' = ID_ALLOW_CGROUP k" "ID_EXCEPT_VALID k' = ID_EXCEPT_VALID k"
    "TELEMETRY_STATS k' = TELEMETRY_STATS k" "TELEM_RINGBUF k' = TELEM_RINGBUF k"
proof -
  have "wf_maps k' \<and> ID_ALLOW_CGROUP k' = ID_ALLOW_CGROUP k \<and> ID_EXCEPT_VALID k' = ID_EXCEPT_VALID k \<and>
    TELEMETRY_STATS k' = TELEMETRY_STATS k \<and> TELEM_RINGBUF k' = TELEM_RINGBUF k"
    using assms(2)
  proof (cases rule: apply_deny_entries_cases)
    case rejected
    with assms(1) show ?thesis by simp
  next
    case slots
    with slots_frame [OF assms(1) slots(3)] show ?thesis by simp
  next
    case count
    note f1 = slots_frame [OF assms(1) count(3)]
    with count_written [OF f1(1) count(4)] show ?thesis by simp
  next
    case clear
    note f1 = slots_frame [OF assms(1) clear(3)]
    note f2 = count_written [OF f1(1) clear(4)]
    with f1 slots_frame [OF f2(1) clear(5)] show ?thesis by simp
  qed
  then show "wf_maps k'" "ID_ALLOW_CGROUP k' = ID_ALLOW_CGROUP k" "ID_EXCEPT_VALID k' = ID_EXCEPT_VALID k"
    "TELEMETRY_STATS k' = TELEMETRY_STATS k" "TELEM_RINGBUF k' = TELEM_RINGBUF k"
    by simp_all
qed

lemma apply_deny_entries_ok:
  assumes "wf_maps k" "apply_deny_entries flt entries k = (Inr u, k')"
  shows "entries \<noteq> []" "length entries \<le> PATH_DENY_MAX_ENTRIES" "list_all valid_len entries"
    "PATH_DENY_COUNT k' = [of_nat (length entries)]"
    "PATH_DENY_LIST k' =
       entries @ replicate (PATH_DENY_MAX_ENTRIES - length entries) path_deny_entry_default"
proof -
  from assms(2) obtain k1 k2 where "entries \<noteq> []"
    and s: "store_slots valid_len (deny_list_set flt) (enumerate 0 entries) k = (Inr (), k1)"
    and c: "deny_count_set flt 0 (of_nat (length entries)) k1 = (Inr (), k2)"
    and z: "store_slots (\<lambda>_. True) (deny_list_set flt) (map (\<lambda>i. (i, path_deny_entry_default))
         [unat (of_nat (length entries) :: u32) ..< PATH_DENY_MAX_ENTRIES]) k2 = (Inr (), k')"
    by (cases rule: apply_deny_entries_cases) auto
  then show "entries \<noteq> []" by simp
  note w = slots_written [OF assms(1) s] and f1 = slots_frame [OF assms(1) s]
  show len: "length entries \<le> PATH_DENY_MAX_ENTRIES" "list_all valid_len entries" using w by simp_all
  note f2 = count_written [OF f1(1) c]
  note z' = z [unfolded unat_len_entries [OF len(1)]]
  show "PATH_DENY_COUNT k' = [of_nat (length entries)]"
    using f2(7) slots_frame(2) [OF f2(1) z] by simp
  show "PATH_DENY_LIST k' =
      entries @ replicate (PATH_DENY_MAX_ENTRIES - length entries) path_deny_entry_default"
    using slots_cleared [OF f2(1) len(1) z'] f2(2) w(3)
    by (metis append_eq_conv_conj append_take_drop_id)
qed

lemma apply_deny_entries_any:
  assumes "wf_maps k" "apply_deny_entries flt entries k = (r, k')"
  shows "(PATH_DENY_COUNT k' = PATH_DENY_COUNT k \<and>
            (\<forall>j < PATH_DENY_MAX_ENTRIES. PATH_DENY_LIST k' ! j = PATH_DENY_LIST k ! j \<or>
               j < length entries \<and> PATH_DENY_LIST k' ! j = entries ! j)) \<or>
         (entries \<noteq> [] \<and> length entries \<le> PATH_DENY_MAX_ENTRIES \<and>
            PATH_DENY_COUNT k' = [of_nat (length entries)] \<and>
            take (length entries) (PATH_DENY_LIST k') = entries)"
proof -
  have old_or_new: "PATH_DENY_LIST k1 ! j = PATH_DENY_LIST k ! j \<or>
      j < length entries \<and> PATH_DENY_LIST k1 ! j = entries ! j"
    if "store_slots valid_len (deny_list_set flt) (enumerate 0 entries) k = (r1, k1)"
      "j < PATH_DENY_MAX_ENTRIES" for r1 k1 j
  proof -
    have "length (PATH_DENY_LIST k1) = PATH_DENY_MAX_ENTRIES"
      using slots_frame(1) [OF assms(1) that(1)] by (simp add: wf_maps_def)
    with deny_list.store_old_or_new [OF that(1) distinct_fst_enumerate, of j] that(2) assms(1)
    show ?thesis
      by (auto simp: map_of_enumerate0 wf_maps_def split: if_splits)
  qed
  show ?thesis
    using assms(2)
  proof (cases rule: apply_deny_entries_cases)
    case slots
    from old_or_new [OF slots(3)] slots_frame(2) [OF assms(1) slots(3)] show ?thesis by blast
  next
    case count
    note f1 = slots_frame [OF assms(1) count(3)]
    note f2 = count_written [OF f1(1) count(4)]
    from f1(2) f2(8) have "PATH_DENY_COUNT k' = PATH_DENY_COUNT k" by simp
    with old_or_new [OF count(3)] show ?thesis unfolding f2(2) by blast
  next
    case clear
    note w = slots_written [OF assms(1) clear(3)] and f1 = slots_frame [OF assms(1) clear(3)]
    note f2 = count_written [OF f1(1) clear(4)]
    note z = clear(5) [unfolded unat_len_entries [OF w(1)]]
    from slots_cleared(1) [OF f2(1) w(1) z] slots_frame(2) [OF f2(1) z] f2(2,7) w(1,3) clear(1)
    show ?thesis by simp
  qed simp
qed

lemma apply_deny_entries_progress:
  assumes "wf_maps k" "\<And>t. flt t = None" "entries \<noteq> []" "length entries \<le> PATH_DENY_MAX_ENTRIES"
    "list_all valid_len entries"
  shows "\<exists>k'. apply_deny_entries flt entries k = (Inr (), k')"
proof -
  have "\<forall>(i, v) \<in> set (enumerate 0 entries). valid_len v \<and> array_get (PATH_DENY_LIST k) i \<noteq> None"
    using assms by (auto simp: in_set_enumerate_eq list_all_iff wf_maps_def)
  then obtain k1 where s: "store_slots valid_len (deny_list_set flt) (enumerate 0 entries) k = (Inr (), k1)"
    using deny_list.store_progress [of flt "enumerate 0 entries" valid_len k, OF assms(2)] by blast
  note f1 = slots_frame [OF assms(1) s]
  then obtain k2 where c: "deny_count_set flt 0 (of_nat (length entries)) k1 = (Inr (), k2)"
    using deny_count.put_progress [of k1 0 flt, OF _ assms(2)] by (auto simp: wf_maps_def)
  note f2 = count_written [OF f1(1) c]
  let ?zs = "map (\<lambda>i. (i, path_deny_entry_default)) [length entries ..< PATH_DENY_MAX_ENTRIES]"
  have "\<forall>(i, v) \<in> set ?zs. (\<lambda>_. True) v \<and> array_get (PATH_DENY_LIST k2) i \<noteq> None"
    using f2(1) by (auto simp: wf_maps_def)
  from deny_list.store_progress [of flt, OF assms(2) this] obtain k3
    where "store_slots (\<lambda>_. True) (deny_list_set flt) ?zs k2 = (Inr (), k3)" by auto
  moreover have "\<not> too_many entries"
    using assms(4) by (simp add: too_many_def unat_len_entries)
  ultimately show ?thesis
    using s c assms(3,4) by (simp add: apply_deny_entries_def unat_len_entries)
qed

lemma wf_entry_valid_len: "wf_entry e \<Longrightarrow> valid_len e"
  by (auto simp: wf_entry_def valid_len_def)

end
