(* ===== verification/Lsm_Hook.thy ===== *)
theory Lsm_Hook
  imports Path_Deny
begin

section \<open>The LSM program: \<open>apps/agent-ebpf-sensor/ebpf/src/main.rs\<close> and \<open>src/lsm_decision.rs\<close>\<close>

text \<open>
  The program on \<open>bprm_check_security\<close> and its user-space mirror. What the kernel helpers
  return during one call is a record \<open>bprm_env\<close>, the argument of every function; the maps
  are the state. A pointer is its 64-bit address, and the offsets resolved from BTF are
  fields of the environment.
\<close>

type_synonym errno = int

record bprm_env =
  bprm_arg :: u64
  BPRM_FILENAME_OFFSET :: u64
  TASK_REAL_PARENT_OFFSET :: u64
  TASK_TGID_OFFSET :: u64
  probe_read_ptr :: "u64 \<Rightarrow> errno + u64"
  probe_read_u32 :: "u64 \<Rightarrow> errno + u32"
  probe_read_window :: "u64 \<Rightarrow> errno + bytes"
  probe_read_str :: "u64 \<Rightarrow> bytes \<Rightarrow> (errno + unit) \<times> bytes"
  current_pid_tgid :: u64
  current_uid_gid :: u64
  current_task :: u64
  current_comm :: "errno + bytes"
  current_cgroup_id :: u64
  ktime_ns :: u64
  ringbuf_has_room :: bool

definition LSM_DENY :: int where "LSM_DENY = -1"
definition LSM_ALLOW :: int where "LSM_ALLOW = 0"

subsection \<open>Reading the path\<close>

definition read_bprm_filename_ptr :: "bprm_env \<Rightarrow> errno + u64" where
  "read_bprm_filename_ptr env = probe_read_ptr env (bprm_arg env + BPRM_FILENAME_OFFSET env)"

definition read_bprm_path_prefix :: "bprm_env \<Rightarrow> errno + bytes" where
  "read_bprm_path_prefix env =
     and_then (read_bprm_filename_ptr env) (\<lambda>p. probe_read_window env p)"

subsection \<open>Matching\<close>

function prefix_loop :: "bytes \<Rightarrow> bytes \<Rightarrow> nat \<Rightarrow> nat \<Rightarrow> bool" where
  "prefix_loop path pre len j =
     (if j < PATH_DENY_KEY_BYTES then
        if len \<le> j then True
        else if path ! j \<noteq> pre ! j then False
        else prefix_loop path pre len (Suc j)
      else True)"
  by pat_completeness auto
termination by (relation "measure (\<lambda>(_, _, _, j). PATH_DENY_KEY_BYTES - j)") auto

definition lsm_path_starts_with :: "bytes \<Rightarrow> bytes \<Rightarrow> nat \<Rightarrow> bool" where
  "lsm_path_starts_with path pre len =
     (if length path < len \<or> len = 0 \<or> PATH_DENY_KEY_BYTES < len then False
      else prefix_loop path pre len 0)"

definition active_count :: "KernelMaps \<Rightarrow> nat" where
  "active_count k =
     (case array_get (PATH_DENY_COUNT k) 0 of
        Some c \<Rightarrow> if PATH_DENY_MAX_ENTRIES < unat c then PATH_DENY_MAX_ENTRIES else unat c
      | None \<Rightarrow> 0)"

definition slot_hit :: "KernelMaps \<Rightarrow> bytes \<Rightarrow> nat \<Rightarrow> bool" where
  "slot_hit k path i =
     (case array_get (PATH_DENY_LIST k) i of
        Some entry \<Rightarrow>
          (let len = unat (pd_len entry) in
           0 < len \<and> len \<le> PATH_DENY_KEY_BYTES \<and> lsm_path_starts_with path (pd_bytes entry) len)
      | None \<Rightarrow> False)"

function deny_scan :: "KernelMaps \<Rightarrow> bytes \<Rightarrow> nat \<Rightarrow> nat \<Rightarrow> bool" where
  "deny_scan k path count i =
     (if i < PATH_DENY_MAX_ENTRIES then
        if count \<le> i then False
        else if slot_hit k path i then True
        else deny_scan k path count (Suc i)
      else False)"
  by pat_completeness auto
termination by (relation "measure (\<lambda>(_, _, _, i). PATH_DENY_MAX_ENTRIES - i)") auto

declare prefix_loop.simps [simp del] deny_scan.simps [simp del]

definition is_blacklisted_path :: "KernelMaps \<Rightarrow> bytes \<Rightarrow> bool" where
  "is_blacklisted_path k path = deny_scan k path (active_count k) 0"

definition identity_exception_allows :: "bprm_env \<Rightarrow> KernelMaps \<Rightarrow> bool" where
  "identity_exception_allows env k =
     (case array_get (ID_EXCEPT_VALID k) 0 of
        None \<Rightarrow> False
      | Some v \<Rightarrow>
          if v \<noteq> IDENTITY_EXCEPTIONS_VALID_FRESH then False
          else (case ID_ALLOW_CGROUP k (current_cgroup_id env) of
                  Some a \<Rightarrow> a = IDENTITY_ALLOW_VALUE
                | None \<Rightarrow> False))"

subsection \<open>The blocked-exec record\<close>

definition init_exec_event :: "u8 \<Rightarrow> ExecEvent" where
  "init_exec_event action = exec_event_default\<lparr>ee_schema_version := 0, ee_enforcement_action := action\<rparr>"

definition mark_unknown :: "bytes \<Rightarrow> u16 \<Rightarrow> u16 \<Rightarrow> bytes \<times> u16" where
  "mark_unknown buf status b =
     (let len = min (length UNKNOWN_SENTINEL) (length buf) in
      (copy_at 0 (take len UNKNOWN_SENTINEL) buf, status OR b))"

definition read_ppid_best_effort :: "bprm_env \<Rightarrow> u16 \<Rightarrow> u32 \<times> u16" where
  "read_ppid_best_effort env status =
     (if current_task env = 0 then (0, status OR CAPTURE_PPID)
      else case probe_read_ptr env (current_task env + TASK_REAL_PARENT_OFFSET env) of
        Inl _ \<Rightarrow> (0, status OR CAPTURE_PPID)
      | Inr parent \<Rightarrow>
          if parent = 0 then (0, status OR CAPTURE_PPID)
          else (case probe_read_u32 env (parent + TASK_TGID_OFFSET env) of
                  Inl _ \<Rightarrow> (0, status OR CAPTURE_PPID)
                | Inr ppid \<Rightarrow> (ppid, status)))"

definition populate_lineage :: "bprm_env \<Rightarrow> ExecEvent \<Rightarrow> ExecEvent" where
  "populate_lineage env ev =
     (let ev = ev\<lparr>ee_pid := ucast (drop_bit 32 (current_pid_tgid env)),
                  ee_tgid := ucast (current_pid_tgid env),
                  ee_uid := ucast (current_uid_gid env),
                  ee_gid := ucast (drop_bit 32 (current_uid_gid env)),
                  ee_euid := ucast (current_uid_gid env),
                  ee_capture_status := ee_capture_status ev OR CAPTURE_EUID\<rparr>;
          (cid, st) = mark_unknown (ee_container_id ev) (ee_capture_status ev) CAPTURE_CONTAINER_ID;
          ev = ev\<lparr>ee_container_id := cid, ee_capture_status := st\<rparr>;
          (ppid, st) = read_ppid_best_effort env (ee_capture_status ev);
          ev = ev\<lparr>ee_ppid := ppid, ee_capture_status := st\<rparr>
      in case current_comm env of
           Inr comm \<Rightarrow>
             ev\<lparr>ee_comm := copy_at 0 (take (min (length comm) MAX_COMM_LEN) comm) (ee_comm ev)\<rparr>
         | Inl _ \<Rightarrow>
             (let (c, st) = mark_unknown (ee_comm ev) (ee_capture_status ev) CAPTURE_COMM
              in ev\<lparr>ee_comm := c, ee_capture_status := st\<rparr>))"

definition fill_filename :: "bprm_env \<Rightarrow> ExecEvent \<Rightarrow> ExecEvent" where
  "fill_filename env ev =
     (let ev = ev\<lparr>ee_filename := replicate MAX_FILENAME_LEN 0\<rparr> in
      case read_bprm_filename_ptr env of
        Inr p \<Rightarrow>
          (case probe_read_str env p (ee_filename ev) of
             (Inr _, buf) \<Rightarrow> ev\<lparr>ee_filename := buf\<rparr>
           | (Inl _, buf) \<Rightarrow>
               (let (f, st) = mark_unknown buf (ee_capture_status ev) CAPTURE_FILENAME
                in ev\<lparr>ee_filename := f, ee_capture_status := st\<rparr>))
      | Inl _ \<Rightarrow>
          (let (f, st) = mark_unknown (ee_filename ev) (ee_capture_status ev) CAPTURE_FILENAME
           in ev\<lparr>ee_filename := f, ee_capture_status := st\<rparr>))"

definition blocked_exec_event :: "bprm_env \<Rightarrow> ExecEvent" where
  "blocked_exec_event env =
     (let ev = fill_filename env (populate_lineage env (init_exec_event ENFORCEMENT_BLOCKED))
      in ev\<lparr>ee_namespace_id := 0,
            ee_capture_status := ee_capture_status ev OR CAPTURE_NAMESPACE_ID,
            ee_timestamp_ns := ktime_ns env,
            ee_schema_version := EXEC_EVENT_SCHEMA_VERSION\<rparr>)"

definition saturating_inc :: "u64 \<Rightarrow> u64" where
  "saturating_inc c = (if c = - 1 then c else c + 1)"

definition record_event_submitted :: "KernelMaps \<Rightarrow> KernelMaps" where
  "record_event_submitted k =
     (case array_get (TELEMETRY_STATS k) 0 of
        Some s \<Rightarrow> k\<lparr>TELEMETRY_STATS :=
                     (TELEMETRY_STATS k)[0 := s\<lparr>events_processed := saturating_inc (events_processed s)\<rparr>]\<rparr>
      | None \<Rightarrow> k)"

definition record_event_lost :: "KernelMaps \<Rightarrow> KernelMaps" where
  "record_event_lost k =
     (case array_get (TELEMETRY_STATS k) 0 of
        Some s \<Rightarrow> k\<lparr>TELEMETRY_STATS :=
                     (TELEMETRY_STATS k)[0 := s\<lparr>lost_events_count := saturating_inc (lost_events_count s)\<rparr>]\<rparr>
      | None \<Rightarrow> k)"

definition emit_blocked_exec_event :: "bprm_env \<Rightarrow> KernelMaps \<Rightarrow> KernelMaps" where
  "emit_blocked_exec_event env k =
     (if ringbuf_has_room env
      then record_event_submitted (k\<lparr>TELEM_RINGBUF := TELEM_RINGBUF k @ [blocked_exec_event env]\<rparr>)
      else record_event_lost k)"

subsection \<open>The hook\<close>

definition try_nm_lsm_bprm :: "bprm_env \<Rightarrow> KernelMaps \<Rightarrow> (errno + int) \<times> KernelMaps" where
  "try_nm_lsm_bprm env k =
     (case read_bprm_path_prefix env of
        Inl e \<Rightarrow> (Inl e, k)
      | Inr pre \<Rightarrow>
          if \<not> is_blacklisted_path k pre then (Inr 0, k)
          else if lsm_path_starts_with pre IDENTITY_EXCEPTION_SCOPE_PREFIX
                    (length IDENTITY_EXCEPTION_SCOPE_PREFIX)
                  \<and> identity_exception_allows env k
          then (Inr 0, k)
          else (Inr LSM_DENY, emit_blocked_exec_event env k))"

definition nm_lsm_bprm :: "bprm_env \<Rightarrow> KernelMaps \<Rightarrow> int \<times> KernelMaps" where
  "nm_lsm_bprm env k =
     (case try_nm_lsm_bprm env k of (Inr ret, k') \<Rightarrow> (ret, k') | (Inl _, k') \<Rightarrow> (LSM_DENY, k'))"

subsection \<open>The user-space mirror: \<open>lsm_decision.rs\<close>\<close>

datatype PathCapture = CaptureOk bytes | FilenamePointerUnreadable | PathBytesUnreadable

definition decision_from_path_capture :: "PathCapture \<Rightarrow> PathDenyEntry list \<Rightarrow> int" where
  "decision_from_path_capture capture deny_entries =
     (case capture of
        FilenamePointerUnreadable \<Rightarrow> LSM_DENY
      | PathBytesUnreadable \<Rightarrow> LSM_DENY
      | CaptureOk pre \<Rightarrow> if map_backed_is_blacklisted pre deny_entries then LSM_DENY else LSM_ALLOW)"

definition lsm_hook_result :: "errno + int \<Rightarrow> int" where
  "lsm_hook_result r = (case r of Inr ret \<Rightarrow> ret | Inl _ \<Rightarrow> LSM_DENY)"

subsection \<open>What the scan decides\<close>

text \<open>The entries the program looks at.\<close>

definition active_entries :: "KernelMaps \<Rightarrow> PathDenyEntry list" where
  "active_entries k = take (active_count k) (PATH_DENY_LIST k)"

text \<open>The slots hold values of their Rust type: 32 bytes of prefix each.\<close>

definition typed_maps :: "KernelMaps \<Rightarrow> bool" where
  "typed_maps k \<longleftrightarrow>
     wf_maps k \<and> list_all (\<lambda>e. length (pd_bytes e) = PATH_DENY_KEY_BYTES) (PATH_DENY_LIST k)"

lemma prefix_loop_iff:
  "len \<le> PATH_DENY_KEY_BYTES \<Longrightarrow>
   prefix_loop path pre len j \<longleftrightarrow> (\<forall>i. j \<le> i \<and> i < len \<longrightarrow> path ! i = pre ! i)"
proof (induction path pre len j rule: prefix_loop.induct)
  case (1 path pre len j)
  show ?case
  proof (cases "j < len")
    case True
    have "(\<forall>i. j \<le> i \<and> i < len \<longrightarrow> path ! i = pre ! i) \<longleftrightarrow>
          path ! j = pre ! j \<and> (\<forall>i. Suc j \<le> i \<and> i < len \<longrightarrow> path ! i = pre ! i)"
      using True all_ge_Suc [of j "\<lambda>i. i < len \<longrightarrow> path ! i = pre ! i"] by (simp add: imp_conjL)
    with 1 True show ?thesis by (subst prefix_loop.simps) auto
  next
    case False
    then show ?thesis by (subst prefix_loop.simps) auto
  qed
qed

lemma starts_with_nth:
  "starts_with xs p \<longleftrightarrow> length p \<le> length xs \<and> (\<forall>i < length p. xs ! i = p ! i)"
proof
  assume "starts_with xs p"
  then show "length p \<le> length xs \<and> (\<forall>i < length p. xs ! i = p ! i)"
    by (auto simp: starts_with_iff nth_append)
next
  assume "length p \<le> length xs \<and> (\<forall>i < length p. xs ! i = p ! i)"
  then show "starts_with xs p"
    by (auto simp: starts_with_def intro: nth_equalityI)
qed

lemma lsm_path_starts_with_iff:
  "len \<le> length pre \<Longrightarrow>
   lsm_path_starts_with path pre len \<longleftrightarrow>
     0 < len \<and> len \<le> PATH_DENY_KEY_BYTES \<and> starts_with path (take len pre)"
  by (auto simp: lsm_path_starts_with_def prefix_loop_iff starts_with_nth)

lemma deny_scan_iff:
  "deny_scan k path count i \<longleftrightarrow>
   (\<exists>j. i \<le> j \<and> j < count \<and> j < PATH_DENY_MAX_ENTRIES \<and> slot_hit k path j)"
proof (induction k path count i rule: deny_scan.induct)
  case (1 k path count i)
  show ?case
  proof (cases "i < PATH_DENY_MAX_ENTRIES \<and> i < count")
    case True
    from 1 True show ?thesis
      by (subst deny_scan.simps, subst ex_ge_Suc) auto
  next
    case False
    then show ?thesis by (subst deny_scan.simps) auto
  qed
qed

lemma active_count_le: "active_count k \<le> PATH_DENY_MAX_ENTRIES"
  by (simp add: active_count_def split: option.split)

lemma set_active_entries:
  "wf_maps k \<Longrightarrow> set (active_entries k) = (\<lambda>j. PATH_DENY_LIST k ! j) ` {0..< active_count k}"
  using active_count_le [of k] nth_image [of "active_count k" "PATH_DENY_LIST k"]
  by (simp add: active_entries_def wf_maps_def)

lemma slot_hit_iff:
  assumes "typed_maps k" "j < PATH_DENY_MAX_ENTRIES"
  shows "slot_hit k path j \<longleftrightarrow> entry_matches (PATH_DENY_LIST k ! j) path"
proof -
  let ?e = "PATH_DENY_LIST k ! j"
  have len: "length (pd_bytes ?e) = PATH_DENY_KEY_BYTES" "j < length (PATH_DENY_LIST k)"
    using assms by (auto simp: typed_maps_def wf_maps_def list_all_length)
  show ?thesis
  proof (cases "wf_entry ?e")
    case True
    then have n: "0 < unat (pd_len ?e)" "unat (pd_len ?e) \<le> PATH_DENY_KEY_BYTES"
      by (simp_all add: wf_entry_def)
    then have "slot_hit k path j \<longleftrightarrow> lsm_path_starts_with path (pd_bytes ?e) (unat (pd_len ?e))"
      using len(2) by (simp add: slot_hit_def Let_def)
    also have "\<dots> \<longleftrightarrow> starts_with path (entry_prefix ?e)"
      using n len(1) lsm_path_starts_with_iff [of "unat (pd_len ?e)" "pd_bytes ?e" path]
      by (simp add: entry_prefix_def)
    finally show ?thesis by (simp add: entry_matches_iff [OF True])
  next
    case False
    then have n: "\<not> (0 < unat (pd_len ?e) \<and> unat (pd_len ?e) \<le> PATH_DENY_KEY_BYTES)"
      using len(1) by (auto simp: wf_entry_def)
    then have "\<not> slot_hit k path j"
      using len(2) unfolding slot_hit_def Let_def by (simp only: array_get_simps option.case simp_thms) blast
    moreover have "\<not> entry_matches ?e path"
      using n unfolding entry_matches_def Let_def by (simp only: not_gr_zero not_le de_Morgan_conj) metis
    ultimately show ?thesis by simp
  qed
qed

lemma is_blacklisted_path_iff:
  assumes "typed_maps k"
  shows "is_blacklisted_path k path \<longleftrightarrow> map_backed_is_blacklisted path (active_entries k)"
proof -
  have "is_blacklisted_path k path \<longleftrightarrow> (\<exists>j \<in> {0..<active_count k}. slot_hit k path j)"
    using active_count_le [of k] order_less_le_trans [of _ "active_count k" PATH_DENY_MAX_ENTRIES]
    by (auto simp: is_blacklisted_path_def deny_scan_iff)
  also have "\<dots> \<longleftrightarrow> (\<exists>j \<in> {0..<active_count k}. entry_matches (PATH_DENY_LIST k ! j) path)"
    using active_count_le [of k] by (intro bex_cong) (auto simp: slot_hit_iff [OF assms])
  also have "\<dots> \<longleftrightarrow> map_backed_is_blacklisted path (active_entries k)"
    using assms by (auto simp: map_backed_is_blacklisted_def list_ex_iff set_active_entries typed_maps_def)
  finally show ?thesis .
qed

lemma identity_exception_allows_iff:
  "wf_maps k \<Longrightarrow> identity_exception_allows env k \<longleftrightarrow>
     ID_EXCEPT_VALID k = [1] \<and> ID_ALLOW_CGROUP k (current_cgroup_id env) = Some 1"
  by (cases "ID_EXCEPT_VALID k") (auto simp: identity_exception_allows_def wf_maps_def abi_consts split: option.splits)

lemma scope_prefix_iff:
  "lsm_path_starts_with w IDENTITY_EXCEPTION_SCOPE_PREFIX (length IDENTITY_EXCEPTION_SCOPE_PREFIX) \<longleftrightarrow>
   starts_with w (str_bytes ''/tmp/'')"
  by (simp add: lsm_path_starts_with_iff IDENTITY_EXCEPTION_SCOPE_PREFIX_def PATH_DENY_KEY_BYTES_def)

subsection \<open>The decision\<close>

text \<open>
  The contract of the hook over the policy state alone: a path window is refused when an
  active entry is a prefix of it and no fresh exception for the caller covers \<open>/tmp/\<close>.
\<close>

definition excepted :: "KernelMaps \<Rightarrow> u64 \<Rightarrow> bytes \<Rightarrow> bool" where
  "excepted k cg w \<longleftrightarrow>
     starts_with w (str_bytes ''/tmp/'') \<and> ID_EXCEPT_VALID k = [1] \<and> ID_ALLOW_CGROUP k cg = Some 1"

definition listed :: "KernelMaps \<Rightarrow> bytes \<Rightarrow> bool" where
  "listed k w \<longleftrightarrow> (\<exists>e \<in> set (active_entries k). wf_entry e \<and> starts_with w (entry_prefix e))"

lemma typed_active: "typed_maps k \<Longrightarrow> e \<in> set (active_entries k) \<Longrightarrow> length (pd_bytes e) = PATH_DENY_KEY_BYTES"
  by (auto simp: typed_maps_def active_entries_def list_all_iff dest: in_set_takeD)

lemma entry_matches_wf:
  "length (pd_bytes e) = PATH_DENY_KEY_BYTES \<Longrightarrow>
   entry_matches e w \<longleftrightarrow> wf_entry e \<and> starts_with w (entry_prefix e)"
proof (cases "wf_entry e")
  case False
  assume "length (pd_bytes e) = PATH_DENY_KEY_BYTES"
  with False have "\<not> (0 < unat (pd_len e) \<and> unat (pd_len e) \<le> PATH_DENY_KEY_BYTES)"
    by (auto simp: wf_entry_def)
  then have "\<not> entry_matches e w"
    unfolding entry_matches_def Let_def by (simp only: not_gr_zero not_le de_Morgan_conj) metis
  with False show ?thesis by simp
qed (simp add: entry_matches_iff)

lemma is_blacklisted_listed: "typed_maps k \<Longrightarrow> is_blacklisted_path k w \<longleftrightarrow> listed k w"
  by (auto simp: is_blacklisted_path_iff map_backed_is_blacklisted_def list_ex_iff listed_def
      entry_matches_wf typed_active)

lemma try_nm_lsm_bprm_spec:
  assumes "typed_maps k"
  shows "try_nm_lsm_bprm env k =
     (case read_bprm_path_prefix env of
        Inl e \<Rightarrow> (Inl e, k)
      | Inr w \<Rightarrow> if listed k w \<and> \<not> excepted k (current_cgroup_id env) w
                 then (Inr LSM_DENY, emit_blocked_exec_event env k) else (Inr 0, k))"
proof -
  have wf: "wf_maps k" using assms by (simp add: typed_maps_def)
  show ?thesis
    by (cases "read_bprm_path_prefix env")
      (auto simp: try_nm_lsm_bprm_def is_blacklisted_listed [OF assms] scope_prefix_iff
        identity_exception_allows_iff [OF wf] excepted_def)
qed

text \<open>
  C1. The hook computes its contract: an exec whose path cannot be read is refused; otherwise
  it is refused exactly when an active well-formed deny entry is a prefix of the path window
  and the path is not under \<open>/tmp/\<close> with a fresh exception for the caller's cgroup. A
  refusal by the list appends one record to the ring buffer or counts it lost; every other
  outcome leaves all maps as they were.
\<close>

theorem nm_lsm_bprm_correct:
  assumes "typed_maps k"
  shows "nm_lsm_bprm env k =
     (case read_bprm_path_prefix env of
        Inl e \<Rightarrow> (LSM_DENY, k)
      | Inr w \<Rightarrow> if listed k w \<and> \<not> excepted k (current_cgroup_id env) w
                 then (LSM_DENY, emit_blocked_exec_event env k) else (LSM_ALLOW, k))"
  unfolding nm_lsm_bprm_def try_nm_lsm_bprm_spec [OF assms]
  by (auto simp: LSM_ALLOW_def split: sum.splits)

subsection \<open>The record of a refusal\<close>

text \<open>What the kernel helpers guarantee: buffers keep their size, and a name has at most 16 bytes.\<close>

definition helpers_ok :: "bprm_env \<Rightarrow> bool" where
  "helpers_ok env \<longleftrightarrow>
     (\<forall>p buf. length (snd (probe_read_str env p buf)) = length buf) \<and>
     (\<forall>c. current_comm env = Inr c \<longrightarrow> length c \<le> MAX_COMM_LEN)"

lemma length_mark_unknown: "length (fst (mark_unknown buf st b)) = length buf"
  by (simp add: mark_unknown_def Let_def)

lemma snd_mark_unknown [simp]: "snd (mark_unknown buf st b) = st OR b"
  by (simp add: mark_unknown_def Let_def)

lemma populate_lineage_wf:
  "wf_exec_event ev \<Longrightarrow> helpers_ok env \<Longrightarrow> wf_exec_event (populate_lineage env ev)"
  by (auto simp: populate_lineage_def wf_exec_event_def helpers_ok_def Let_def split_beta length_mark_unknown
      split: sum.splits)

lemma fill_filename_wf:
  "wf_exec_event ev \<Longrightarrow> helpers_ok env \<Longrightarrow> wf_exec_event (fill_filename env ev)"
  by (auto simp: fill_filename_def wf_exec_event_def helpers_ok_def Let_def split_beta length_mark_unknown
      split: sum.splits prod.splits)

text \<open>The parent id the program can read, if any.\<close>

definition parent_tgid :: "bprm_env \<Rightarrow> u32 option" where
  "parent_tgid env =
     (if current_task env = 0 then None
      else case probe_read_ptr env (current_task env + TASK_REAL_PARENT_OFFSET env) of
        Inl _ \<Rightarrow> None
      | Inr p \<Rightarrow> if p = 0 then None
                 else (case probe_read_u32 env (p + TASK_TGID_OFFSET env) of Inl _ \<Rightarrow> None | Inr t \<Rightarrow> Some t))"

lemma read_ppid_best_effort_eq:
  "read_ppid_best_effort env st =
     (case parent_tgid env of None \<Rightarrow> (0, st OR CAPTURE_PPID) | Some t \<Rightarrow> (t, st))"
  by (simp add: read_ppid_best_effort_def parent_tgid_def split: sum.split)

text \<open>The path string the program can read, as the buffer it leaves.\<close>

definition filename_buf :: "bprm_env \<Rightarrow> bytes option" where
  "filename_buf env =
     (case read_bprm_filename_ptr env of
        Inl _ \<Rightarrow> None
      | Inr p \<Rightarrow> (case probe_read_str env p (replicate MAX_FILENAME_LEN 0) of
                    (Inr _, buf) \<Rightarrow> Some buf | (Inl _, _) \<Rightarrow> None))"

definition blocked_status :: "bprm_env \<Rightarrow> u16" where
  "blocked_status env =
     CAPTURE_EUID OR CAPTURE_CONTAINER_ID
     OR (if parent_tgid env = None then CAPTURE_PPID else 0)
     OR (if \<exists>e. current_comm env = Inl e then CAPTURE_COMM else 0)
     OR (if filename_buf env = None then CAPTURE_FILENAME else 0)
     OR CAPTURE_NAMESPACE_ID"

lemma populate_lineage_status:
  "ee_capture_status (populate_lineage env ev) =
     ee_capture_status ev OR CAPTURE_EUID OR CAPTURE_CONTAINER_ID
     OR (if parent_tgid env = None then CAPTURE_PPID else 0)
     OR (if \<exists>e. current_comm env = Inl e then CAPTURE_COMM else 0)"
  by (cases "parent_tgid env"; cases "current_comm env")
    (simp_all add: populate_lineage_def read_ppid_best_effort_eq Let_def split_beta or.assoc)

lemma populate_lineage_fields:
  "ee_ppid (populate_lineage env ev) = (case parent_tgid env of Some t \<Rightarrow> t | None \<Rightarrow> 0)"
  "ee_pid (populate_lineage env ev) = ucast (drop_bit 32 (current_pid_tgid env))"
  "ee_uid (populate_lineage env ev) = ucast (current_uid_gid env)"
  "ee_enforcement_action (populate_lineage env ev) = ee_enforcement_action ev"
  "ee_event_type (populate_lineage env ev) = ee_event_type ev"
  "ee_struct_size (populate_lineage env ev) = ee_struct_size ev"
  by (cases "parent_tgid env"; cases "current_comm env";
      simp add: populate_lineage_def read_ppid_best_effort_eq Let_def split_beta)+

lemma fill_filename_fields:
  "ee_capture_status (fill_filename env ev) =
     ee_capture_status ev OR (if filename_buf env = None then CAPTURE_FILENAME else 0)"
  "filename_buf env = Some buf \<Longrightarrow> ee_filename (fill_filename env ev) = buf"
  "ee_ppid (fill_filename env ev) = ee_ppid ev" "ee_pid (fill_filename env ev) = ee_pid ev"
  "ee_uid (fill_filename env ev) = ee_uid ev"
  "ee_enforcement_action (fill_filename env ev) = ee_enforcement_action ev"
  "ee_event_type (fill_filename env ev) = ee_event_type ev"
  "ee_struct_size (fill_filename env ev) = ee_struct_size ev"
  by (auto simp: fill_filename_def filename_buf_def Let_def split_beta split: sum.splits prod.splits)

lemma mark_unknown_sentinel:
  "length UNKNOWN_SENTINEL \<le> length buf \<Longrightarrow> starts_with (fst (mark_unknown buf st b)) UNKNOWN_SENTINEL"
  by (simp add: mark_unknown_def Let_def copy_at_def min_def)

lemma fill_filename_unknown:
  assumes "filename_buf env = None" "helpers_ok env"
  shows "starts_with (ee_filename (fill_filename env ev)) UNKNOWN_SENTINEL"
proof -
  have "length UNKNOWN_SENTINEL \<le> MAX_FILENAME_LEN"
    by (simp add: UNKNOWN_SENTINEL_def MAX_FILENAME_LEN_def)
  moreover have "length (snd (probe_read_str env p (replicate MAX_FILENAME_LEN 0))) = MAX_FILENAME_LEN" for p
    using assms(2) by (simp add: helpers_ok_def)
  ultimately show ?thesis
    using assms(1)
    by (auto simp: fill_filename_def filename_buf_def Let_def split_beta mark_unknown_sentinel
        split: sum.splits prod.splits)
qed

lemma blocked_event_status: "ee_capture_status (blocked_exec_event env) = blocked_status env"
  by (simp add: blocked_exec_event_def fill_filename_fields populate_lineage_status init_exec_event_def
      exec_event_default_def blocked_status_def Let_def or.assoc)

lemma blocked_event_fields:
  "ee_ppid (blocked_exec_event env) = (case parent_tgid env of Some t \<Rightarrow> t | None \<Rightarrow> 0)"
  "filename_buf env = Some buf \<Longrightarrow> ee_filename (blocked_exec_event env) = buf"
  "filename_buf env = None \<Longrightarrow> helpers_ok env \<Longrightarrow>
     starts_with (ee_filename (blocked_exec_event env)) UNKNOWN_SENTINEL"
  "ee_enforcement_action (blocked_exec_event env) = ENFORCEMENT_BLOCKED"
  "is_valid (blocked_exec_event env)"
  "ee_pid (blocked_exec_event env) = ucast (drop_bit 32 (current_pid_tgid env))"
  "ee_uid (blocked_exec_event env) = ucast (current_uid_gid env)"
  by (simp_all add: blocked_exec_event_def fill_filename_fields fill_filename_unknown populate_lineage_fields
      init_exec_event_def exec_event_default_def is_valid_def Let_def)

lemma blocked_event_wf: "helpers_ok env \<Longrightarrow> wf_exec_event (blocked_exec_event env)"
proof -
  assume ok: "helpers_ok env"
  have "wf_exec_event (init_exec_event ENFORCEMENT_BLOCKED)"
    by (simp add: init_exec_event_def exec_event_default_def wf_exec_event_def)
  from fill_filename_wf [OF populate_lineage_wf [OF this ok] ok]
  show ?thesis by (simp add: blocked_exec_event_def Let_def wf_exec_event_def)
qed

lemma blocked_status_bits:
  "field_unknown (blocked_exec_event env) CAPTURE_PPID \<longleftrightarrow> parent_tgid env = None"
  "field_unknown (blocked_exec_event env) CAPTURE_COMM \<longleftrightarrow> (\<exists>e. current_comm env = Inl e)"
  "field_unknown (blocked_exec_event env) CAPTURE_FILENAME \<longleftrightarrow> filename_buf env = None"
  by (simp_all add: field_unknown_def blocked_event_status blocked_status_def capture_bits)


text \<open>A call in which the path is \<open>/tmp/x\<close>, the name helper fails and the parent is 7.\<close>

definition sample_bprm :: bprm_env where
  "sample_bprm =
     \<lparr>bprm_arg = 4096, BPRM_FILENAME_OFFSET = 96, TASK_REAL_PARENT_OFFSET = 8, TASK_TGID_OFFSET = 16,
      probe_read_ptr = (\<lambda>a. Inr 8192), probe_read_u32 = (\<lambda>a. Inr 7),
      probe_read_window = (\<lambda>a. Inr (copy_at 0 (str_bytes ''/tmp/x'') (replicate PATH_DENY_KEY_BYTES 0))),
      probe_read_str = (\<lambda>a buf. (Inr (), copy_at 0 (take (length buf) (str_bytes ''/tmp/x'')) buf)),
      current_pid_tgid = 42, current_uid_gid = 0, current_task = 64, current_comm = Inl (-14),
      current_cgroup_id = 5, ktime_ns = 1, ringbuf_has_room = True\<rparr>"


text \<open>The bootstrap list in force, cgroup 5 excepted and the exceptions fresh.\<close>

definition sample_maps :: KernelMaps where
  "sample_maps =
     fresh_maps\<lparr>PATH_DENY_LIST :=
                  map (\<lambda>p. the (from_prefix p)) BOOTSTRAP_PATH_DENY_PREFIXES @
                  replicate (PATH_DENY_MAX_ENTRIES - 3) path_deny_entry_default,
                PATH_DENY_COUNT := [3], ID_ALLOW_CGROUP := [5 \<mapsto> 1], ID_EXCEPT_VALID := [1]\<rparr>"

subsection \<open>The writer seen by the hook\<close>

lemma slot_origin:
  assumes "wf_maps k" "apply_deny_entries flt entries k = (r, k')" "j < PATH_DENY_MAX_ENTRIES"
  shows "PATH_DENY_LIST k' ! j \<in> {PATH_DENY_LIST k ! j, path_deny_entry_default} \<union> set entries"
proof -
  have first: "PATH_DENY_LIST k1 ! j \<in> {PATH_DENY_LIST k ! j} \<union> set entries"
    if "store_slots valid_len (deny_list_set flt) (enumerate 0 entries) k = (r1, k1)" for r1 k1
    using deny_list.store_old_or_new [OF that distinct_fst_enumerate, of j]
      slots_frame(1) [OF assms(1) that] assms(1,3)
    by (auto simp: map_of_enumerate0 wf_maps_def split: if_splits) (metis nth_mem)
  show ?thesis
    using assms(2)
  proof (cases rule: apply_deny_entries_cases)
    case slots
    with first show ?thesis by blast
  next
    case count
    with first slots_frame(1) [OF assms(1) count(3)] show ?thesis
      using count_written(2) [OF _ count(4)] by fastforce
  next
    case (clear k1 k2 r3)
    note f1 = slots_frame(1) [OF assms(1) clear(3)]
    note f2 = count_written(1,2) [OF f1 clear(4)]
    let ?zs = "map (\<lambda>i. (i, path_deny_entry_default))
         [unat (of_nat (length entries) :: u32) ..< PATH_DENY_MAX_ENTRIES]"
    have "distinct (map fst ?zs)" by (simp add: comp_def)
    from deny_list.store_old_or_new [OF clear(5) this, of j] f2 slots_frame(1) [OF f2(1) clear(5)] assms(3)
    have "PATH_DENY_LIST k' ! j = PATH_DENY_LIST k1 ! j \<or> PATH_DENY_LIST k' ! j = path_deny_entry_default"
      by (auto simp: map_of_const_slots wf_maps_def split: if_splits)
    with first [OF clear(3)] show ?thesis by auto
  qed simp
qed

lemma typed_apply:
  assumes "typed_maps k" "list_all (\<lambda>e. length (pd_bytes e) = PATH_DENY_KEY_BYTES) entries"
    "apply_deny_entries flt entries k = (r, k')"
  shows "typed_maps k'"
proof -
  have wf: "wf_maps k" "wf_maps k'"
    using assms apply_deny_entries_frame(1) [of k flt entries r k'] by (auto simp: typed_maps_def)
  have "length (pd_bytes (PATH_DENY_LIST k' ! j)) = PATH_DENY_KEY_BYTES" if "j < PATH_DENY_MAX_ENTRIES" for j
    using slot_origin [OF wf(1) assms(3) that] assms(1,2) wf that
    by (auto simp: typed_maps_def wf_maps_def list_all_iff path_deny_entry_default_def)
  with wf show ?thesis by (auto simp: typed_maps_def wf_maps_def list_all_length)
qed

lemma wf_entries_typed: "list_all wf_entry es \<Longrightarrow> list_all (\<lambda>e. length (pd_bytes e) = PATH_DENY_KEY_BYTES) es"
  by (auto simp: list_all_iff wf_entry_def)

lemma active_after_apply:
  assumes "wf_maps k" "apply_deny_entries flt entries k = (Inr u, k')"
  shows "active_entries k' = entries"
  using apply_deny_entries_ok [OF assms]
  by (simp add: active_entries_def active_count_def unat_len_entries)

text \<open>
  C2. Enforcement follows the bundle: when the prefixes of a bundle convert and the writer
  returns success, whatever the maps held before, the LSM program refuses a path window
  exactly when one of the bundle's prefixes is a prefix of it.
\<close>

theorem apply_deny_entries_enforced:
  assumes "typed_maps k" "entries_of_prefixes ps = Inr es" "apply_deny_entries flt es k = (Inr u, k')"
  shows "is_blacklisted_path k' w \<longleftrightarrow> (\<exists>p \<in> set ps. starts_with w (str_bytes p))"
proof -
  note es = entries_of_prefixes_Inr [OF assms(2)]
  have wf: "wf_maps k" using assms(1) by (simp add: typed_maps_def)
  have "typed_maps k'"
    by (rule typed_apply [OF assms(1) wf_entries_typed [OF es(1)] assms(3)])
  then have "is_blacklisted_path k' w \<longleftrightarrow> map_backed_is_blacklisted w es"
    by (simp add: is_blacklisted_path_iff active_after_apply [OF wf assms(3)])
  also have "\<dots> \<longleftrightarrow> (\<exists>x \<in> set (map entry_prefix es). starts_with w x)"
    by (auto simp: map_backed_iff [OF es(1)])
  finally show ?thesis by (simp add: es(2))
qed

text \<open>
  C3. No fail-open window: at every point of an update, and after a write the kernel refused,
  an active list stays active, and a path refused by the entries of one slot both before and
  after the update is refused throughout.
\<close>

theorem apply_deny_entries_no_gap:
  assumes "typed_maps k" "list_all (\<lambda>e. length (pd_bytes e) = PATH_DENY_KEY_BYTES) entries"
    "apply_deny_entries flt entries k = (r, k')"
  shows "(0 < active_count k \<longrightarrow> 0 < active_count k') \<and>
    (\<forall>j w. j < active_count k \<and> j < length entries \<and> entry_matches (PATH_DENY_LIST k ! j) w \<and>
       entry_matches (entries ! j) w \<longrightarrow> is_blacklisted_path k' w)"
proof -
  have wf: "wf_maps k" using assms(1) by (simp add: typed_maps_def)
  note t' = typed_apply [OF assms]
  have wf': "wf_maps k'" using t' by (simp add: typed_maps_def)
  have hit: "is_blacklisted_path k' w"
    if "j < active_count k'" "entry_matches (PATH_DENY_LIST k' ! j) w" for j w
    using that by (auto simp: is_blacklisted_path_iff [OF t'] map_backed_is_blacklisted_def list_ex_iff
        set_active_entries [OF wf'])
  from apply_deny_entries_any [OF wf assms(3)] show ?thesis
  proof (elim disjE conjE)
    assume c: "PATH_DENY_COUNT k' = PATH_DENY_COUNT k"
      and s: "\<forall>j<PATH_DENY_MAX_ENTRIES. PATH_DENY_LIST k' ! j = PATH_DENY_LIST k ! j \<or>
         j < length entries \<and> PATH_DENY_LIST k' ! j = entries ! j"
    have n: "active_count k' = active_count k" by (simp add: active_count_def c)
    show ?thesis
      unfolding n using s hit n active_count_le [of k] by (metis order_less_le_trans)
  next
    assume ne: "entries \<noteq> []" and len: "length entries \<le> PATH_DENY_MAX_ENTRIES"
      and c: "PATH_DENY_COUNT k' = [of_nat (length entries)]"
      and tk: "take (length entries) (PATH_DENY_LIST k') = entries"
    have n: "active_count k' = length entries"
      using len by (simp add: active_count_def c unat_len_entries)
    have "PATH_DENY_LIST k' ! j = entries ! j" if "j < length entries" for j
      using arg_cong [OF tk, of "\<lambda>xs. xs ! j"] that by simp
    with hit n ne show ?thesis by simp blast
  qed
qed

text \<open>
  C14. Starting the agent on any maps puts the three built-in prefixes in force: when bootstrap
  returns, the program refuses exactly the paths the original hard-coded check refused, and
  bootstrap does return when no map write is refused.
\<close>

theorem bootstrap_enforces_builtin:
  assumes "typed_maps k"
  shows "(bootstrap_deny_maps flt now k = (Inr st, k') \<longrightarrow>
            (is_blacklisted_path k' w \<longleftrightarrow> legacy_hardcoded_is_blacklisted w) \<and> \<not> stale st) \<and>
         ((\<forall>t. flt t = None) \<longrightarrow> (\<exists>st k'. bootstrap_deny_maps flt now k = (Inr st, k')))"
proof -
  obtain es where es: "bootstrap_entries = Inr es" "list_all wf_entry es"
    "map entry_prefix es = BOOTSTRAP_PATH_DENY_PREFIXES" by (rule bootstrap_entries_ok)
  have wf: "wf_maps k" using assms by (simp add: typed_maps_def)
  have legacy: "legacy_hardcoded_is_blacklisted w \<longleftrightarrow> (\<exists>x \<in> set (map entry_prefix es). starts_with w x)"
    by (simp add: es(3) legacy_hardcoded_is_blacklisted_def BOOTSTRAP_PATH_DENY_PREFIXES_def)
  have "is_blacklisted_path k' w \<longleftrightarrow> legacy_hardcoded_is_blacklisted w"
    if "apply_deny_entries flt es k = (Inr u, k')" for u k'
    using typed_apply [OF assms wf_entries_typed [OF es(2)] that] legacy
    by (auto simp: is_blacklisted_path_iff active_after_apply [OF wf that] map_backed_iff [OF es(2)])
  moreover have "\<exists>k'. apply_deny_entries flt es k = (Inr (), k')" if "\<forall>t. flt t = None"
  proof (rule apply_deny_entries_progress [OF wf])
    show "flt t = None" for t using that by simp
    have "length es = 3" using arg_cong [OF es(3), of length] by (simp add: BOOTSTRAP_PATH_DENY_PREFIXES_def)
    then show "es \<noteq> []" "length es \<le> PATH_DENY_MAX_ENTRIES"
      by (auto simp: PATH_DENY_MAX_ENTRIES_def)
    show "list_all valid_len es" using es(2) by (auto simp: list_all_iff wf_entry_valid_len)
  qed
  ultimately show ?thesis
    by (fastforce simp: bootstrap_deny_maps_def es(1) fresh_sync_state_def split: prod.splits sum.splits)
qed

subsection \<open>Concrete runs\<close>

lemma sample_maps_typed: "typed_maps sample_maps"
  by code_simp

theorem nm_lsm_bprm_correct_witness:
  "typed_maps sample_maps \<and> nm_lsm_bprm sample_bprm sample_maps = (LSM_ALLOW, sample_maps)"
proof -
  have "read_bprm_path_prefix sample_bprm =
      Inr (copy_at 0 (str_bytes ''/tmp/x'') (replicate PATH_DENY_KEY_BYTES 0))"
    by (simp add: read_bprm_path_prefix_def read_bprm_filename_ptr_def sample_bprm_def)
  moreover have "starts_with (copy_at 0 (str_bytes ''/tmp/x'') (replicate PATH_DENY_KEY_BYTES 0))
      (str_bytes ''/tmp/'')"
    by code_simp
  ultimately show ?thesis
    using nm_lsm_bprm_correct [OF sample_maps_typed, of sample_bprm] sample_maps_typed
    by (simp add: excepted_def sample_maps_def sample_bprm_def)
qed

definition sample_entries :: "PathDenyEntry list" where
  "sample_entries = (case entries_of_prefixes [''/opt/x/''] of Inr es \<Rightarrow> es | Inl _ \<Rightarrow> [])"

definition no_faults :: faults where "no_faults = (\<lambda>_. None)"

theorem apply_deny_entries_enforced_witness:
  "is_blacklisted_path (snd (apply_deny_entries no_faults sample_entries sample_maps))
     (str_bytes ''/opt/x/y'')"
proof -
  have "entries_of_prefixes [''/opt/x/''] = Inr sample_entries" by code_simp
  moreover have "\<exists>k'. apply_deny_entries no_faults sample_entries sample_maps = (Inr (), k')"
  proof (rule apply_deny_entries_progress)
    show "wf_maps sample_maps" using sample_maps_typed by (simp add: typed_maps_def)
    show "sample_entries \<noteq> []" "length sample_entries \<le> PATH_DENY_MAX_ENTRIES"
      "list_all valid_len sample_entries" by code_simp+
  qed (simp add: no_faults_def)
  then have "apply_deny_entries no_faults sample_entries sample_maps =
      (Inr (), snd (apply_deny_entries no_faults sample_entries sample_maps))"
    by auto
  ultimately show ?thesis
    using apply_deny_entries_enforced [OF sample_maps_typed, of "[''/opt/x/'']"] by simp
qed

text \<open>The bootstrap list in reverse, and a kernel that refuses the second write of the update.\<close>

definition reversed_bootstrap :: "PathDenyEntry list" where
  "reversed_bootstrap = rev (active_entries sample_maps)"

definition second_write_fails :: faults where
  "second_write_fails = (\<lambda>t. if t = Suc (km_tick sample_maps) then Some 5 else None)"

theorem apply_deny_entries_no_gap_witness:
  "fst (apply_deny_entries second_write_fails reversed_bootstrap sample_maps) = Inl (ListWrite 1) \<and>
   is_blacklisted_path (snd (apply_deny_entries second_write_fails reversed_bootstrap sample_maps))
     (str_bytes ''/dev/shm/x'')"
proof -
  let ?k = "snd (apply_deny_entries second_write_fails reversed_bootstrap sample_maps)"
  have fst: "fst (apply_deny_entries second_write_fails reversed_bootstrap sample_maps) = Inl (ListWrite 1)"
    by code_simp
  then have run: "apply_deny_entries second_write_fails reversed_bootstrap sample_maps = (Inl (ListWrite 1), ?k)"
    by (metis prod.collapse)
  have typed: "list_all (\<lambda>e. length (pd_bytes e) = PATH_DENY_KEY_BYTES) reversed_bootstrap" by code_simp
  have "1 < active_count sample_maps \<and> 1 < length reversed_bootstrap \<and>
      entry_matches (PATH_DENY_LIST sample_maps ! 1) (str_bytes ''/dev/shm/x'') \<and>
      entry_matches (reversed_bootstrap ! 1) (str_bytes ''/dev/shm/x'')"
    by code_simp
  with apply_deny_entries_no_gap [OF sample_maps_typed typed run] fst show ?thesis by blast
qed


theorem bootstrap_enforces_builtin_witness:
  "typed_maps fresh_maps \<and>
   is_blacklisted_path (snd (bootstrap_deny_maps no_faults 7 fresh_maps)) (str_bytes ''/var/tmp/a'')"
proof -
  have typed: "typed_maps fresh_maps" by code_simp
  obtain st k' where run: "bootstrap_deny_maps no_faults 7 fresh_maps = (Inr st, k')"
    using bootstrap_enforces_builtin [OF typed, THEN conjunct2, of no_faults 7] by (auto simp: no_faults_def)
  moreover have "legacy_hardcoded_is_blacklisted (str_bytes ''/var/tmp/a'')" by code_simp
  ultimately have "is_blacklisted_path k' (str_bytes ''/var/tmp/a'')"
    using bootstrap_enforces_builtin [OF typed, of no_faults 7 st k' "str_bytes ''/var/tmp/a''"] by simp
  with typed run show ?thesis by simp
qed

subsection \<open>The mirror\<close>

text \<open>What the two reads of the program amount to, in the terms of the mirror.\<close>

definition capture_of :: "bprm_env \<Rightarrow> PathCapture" where
  "capture_of env =
     (case read_bprm_filename_ptr env of
        Inl _ \<Rightarrow> FilenamePointerUnreadable
      | Inr p \<Rightarrow> (case probe_read_window env p of Inl _ \<Rightarrow> PathBytesUnreadable | Inr w \<Rightarrow> CaptureOk w))"

text \<open>
  C15. The user-space mirror decides as the program does: on every call without an identity
  exception, the mirror applied to the outcome of the reads and to the active entries returns
  the value of the hook.
\<close>

theorem decision_mirror_agrees:
  assumes "typed_maps k" "\<forall>w. capture_of env = CaptureOk w \<longrightarrow> \<not> excepted k (current_cgroup_id env) w"
  shows "fst (nm_lsm_bprm env k) = decision_from_path_capture (capture_of env) (active_entries k) \<and>
    fst (nm_lsm_bprm env k) = lsm_hook_result (fst (try_nm_lsm_bprm env k))"
proof -
  have hook: "nm_lsm_bprm env k =
      (lsm_hook_result (fst (try_nm_lsm_bprm env k)), snd (try_nm_lsm_bprm env k))"
    by (simp add: nm_lsm_bprm_def lsm_hook_result_def split: prod.split sum.split)
  have "lsm_hook_result (fst (try_nm_lsm_bprm env k)) =
      decision_from_path_capture (capture_of env) (active_entries k)"
    using assms(2)
    by (cases "read_bprm_filename_ptr env"; cases "probe_read_window env (projr (read_bprm_filename_ptr env))")
      (auto simp: try_nm_lsm_bprm_spec [OF assms(1)] capture_of_def lsm_hook_result_def LSM_ALLOW_def
        decision_from_path_capture_def read_bprm_path_prefix_def is_blacklisted_listed [OF assms(1), symmetric]
        is_blacklisted_path_iff [OF assms(1)])
  with hook show ?thesis by simp
qed

theorem decision_mirror_agrees_witness:
  "fst (nm_lsm_bprm (sample_bprm\<lparr>current_cgroup_id := 6\<rparr>) sample_maps) =
   decision_from_path_capture (capture_of (sample_bprm\<lparr>current_cgroup_id := 6\<rparr>)) (active_entries sample_maps)"
  using decision_mirror_agrees [OF sample_maps_typed, of "sample_bprm\<lparr>current_cgroup_id := 6\<rparr>"]
  by (simp add: excepted_def sample_maps_def sample_bprm_def)

end
