(* ===== verification/Attestation.thy ===== *)
theory Attestation
  imports Utf8
begin

section \<open>Bytecode attestation: \<open>apps/agent-ebpf-sensor/src/bytecode_attestation.rs\<close>\<close>

text \<open>
  The check of the embedded BPF objects against a signed manifest before any of them is loaded,
  and the Cosign blob verification that the policy sync shares. The cryptographic crates,
  \<open>base64\<close> and \<open>serde_json\<close> are the fields of \<open>CosignApi\<close> and the argument \<open>from_slice\<close>; the file
  system is the argument \<open>read\<close>.
\<close>

record ('k, 's, 'e) CosignApi =
  b64_decode :: "string \<Rightarrow> bytes option"
  p256_from_pem :: "string \<Rightarrow> 'k option"
  ecdsa_from_der :: "bytes \<Rightarrow> 's option"
  ecdsa_from_slice :: "bytes \<Rightarrow> 's option"
  p256_verify :: "'k \<Rightarrow> bytes \<Rightarrow> 's \<Rightarrow> bool"
  ed25519_from_pem :: "string \<Rightarrow> 'e option"
  ed25519_sig_len :: nat
  ed25519_verify_strict :: "'e \<Rightarrow> bytes \<Rightarrow> bytes \<Rightarrow> bool"
  sha256 :: "bytes \<Rightarrow> bytes"

definition DEFAULT_COSIGN_PUBLIC_KEY_PATH :: string where
  "DEFAULT_COSIGN_PUBLIC_KEY_PATH = ''/etc/neuromesh/cosign/cosign.pub''"
definition DEFAULT_BYTECODE_MANIFEST_PATH :: string where
  "DEFAULT_BYTECODE_MANIFEST_PATH = ''/etc/neuromesh/bytecode-manifest.json''"
definition DEFAULT_BYTECODE_MANIFEST_SIG_PATH :: string where
  "DEFAULT_BYTECODE_MANIFEST_SIG_PATH = ''/etc/neuromesh/bytecode-manifest.sig''"

definition REQUIRED_ARTIFACT_NAMES :: "string list" where
  "REQUIRED_ARTIFACT_NAMES = [''sys_exec.bpf.o'', ''network_filter.bpf.o'', ''agent-ebpf-sensor-ebpf'']"

definition EXPECTED_SCHEMA_VERSION :: u32 where "EXPECTED_SCHEMA_VERSION = 1"

record EmbeddedArtifact =
  ea_name :: string
  ea_bytes :: bytes

record ManifestArtifact =
  ma_name :: string
  ma_digest :: string

record Manifest =
  mf_schema_version :: u32
  mf_git_sha :: string
  mf_build_timestamp :: string
  mf_artifacts :: "ManifestArtifact list"

datatype AttestationError =
  ManifestMissing string | ManifestUnreadable string | SignatureMissing string | SignatureUnreadable string
  | PublicKeyMissing string | PublicKeyUnreadable string | PublicKeyInvalid | PathNotAbsolute string
  | SignatureInvalid | ManifestParse | ManifestSchema | ArtifactMissingFromManifest string
  | UnexpectedArtifactInManifest string | DigestMismatch string | AttestPanic

subsection \<open>Paths and digests\<close>

definition env_abs_path :: "string option \<Rightarrow> string \<Rightarrow> AttestationError + string" where
  "env_abs_path env dflt =
     (let raw = (case env of None \<Rightarrow> dflt | Some v \<Rightarrow> v) in
      if \<not> starts_with raw ''/'' then Inl (PathNotAbsolute raw) else Inr raw)"

definition paths_from_env ::
  "string option \<Rightarrow> string option \<Rightarrow> string option \<Rightarrow> AttestationError + (string \<times> string \<times> string)" where
  "paths_from_env manifest_env sig_env key_env =
     and_then (env_abs_path manifest_env DEFAULT_BYTECODE_MANIFEST_PATH) (\<lambda>manifest.
     and_then (env_abs_path sig_env DEFAULT_BYTECODE_MANIFEST_SIG_PATH) (\<lambda>signature.
     and_then (env_abs_path key_env DEFAULT_COSIGN_PUBLIC_KEY_PATH) (\<lambda>public_key.
     Inr (manifest, signature, public_key))))"

definition hex_lower :: "nat \<Rightarrow> char" where
  "hex_lower n = ''0123456789abcdef'' ! n"

definition hex_encode :: "bytes \<Rightarrow> string" where
  "hex_encode bs = concat (map (\<lambda>b. [hex_lower (unat (drop_bit 4 b)), hex_lower (unat (b AND 0xF))]) bs)"

definition sha256_digest :: "('k, 's, 'e) CosignApi \<Rightarrow> bytes \<Rightarrow> string" where
  "sha256_digest api bs = ''sha256:'' @ hex_encode (sha256 api bs)"

subsection \<open>Signatures\<close>

definition parse_ecdsa_signature :: "('k, 's, 'e) CosignApi \<Rightarrow> bytes \<Rightarrow> AttestationError + 's" where
  "parse_ecdsa_signature api raw =
     (case ecdsa_from_der api raw of
        Some s \<Rightarrow> Inr s
      | None \<Rightarrow> ok_or (ecdsa_from_slice api raw) SignatureInvalid)"

definition verify_cosign_blob_signature ::
  "('k, 's, 'e) CosignApi \<Rightarrow> bytes \<Rightarrow> bytes \<Rightarrow> bytes \<Rightarrow> AttestationError + unit" where
  "verify_cosign_blob_signature api public_key_pem message signature_file_bytes =
     and_then (ok_or (from_utf8 signature_file_bytes) SignatureInvalid) (\<lambda>sig_text.
     let sig_b64 = trim sig_text in
     if sig_b64 = [] then Inl SignatureInvalid
     else
       and_then (ok_or (b64_decode api sig_b64) SignatureInvalid) (\<lambda>sig_raw.
       and_then (ok_or (from_utf8 public_key_pem) PublicKeyInvalid) (\<lambda>pem_str.
       case p256_from_pem api pem_str of
         Some key \<Rightarrow>
           and_then (parse_ecdsa_signature api sig_raw) (\<lambda>signature.
           if p256_verify api key message signature then Inr () else Inl SignatureInvalid)
       | None \<Rightarrow>
           (case ed25519_from_pem api pem_str of
              Some key \<Rightarrow>
                if length sig_raw \<noteq> ed25519_sig_len api then Inl SignatureInvalid
                else if ed25519_verify_strict api key message sig_raw then Inr () else Inl SignatureInvalid
            | None \<Rightarrow> Inl PublicKeyInvalid))))"

subsection \<open>The manifest\<close>

text \<open>A file read: its bytes, or whether the file was missing.\<close>

definition read_file ::
  "(string \<Rightarrow> bool + bytes) \<Rightarrow> string \<Rightarrow> AttestationError \<Rightarrow> AttestationError \<Rightarrow> AttestationError + bytes" where
  "read_file read path missing unreadable =
     (case read path of
        Inr bs \<Rightarrow> Inr bs
      | Inl not_found \<Rightarrow> Inl (if not_found then missing else unreadable))"

fun check_required :: "Manifest \<Rightarrow> EmbeddedArtifact list \<Rightarrow> string list \<Rightarrow> AttestationError + unit" where
  "check_required m artifacts [] = Inr ()"
| "check_required m artifacts (r # rs) =
     (if \<not> list_ex (\<lambda>a. ea_name a = r) artifacts then Inl (ArtifactMissingFromManifest r)
      else if \<not> list_ex (\<lambda>a. ma_name a = r) (mf_artifacts m) then Inl (ArtifactMissingFromManifest r)
      else check_required m artifacts rs)"

fun check_entries :: "ManifestArtifact list \<Rightarrow> AttestationError + unit" where
  "check_entries [] = Inr ()"
| "check_entries (e # es) =
     (if ma_name e \<notin> set REQUIRED_ARTIFACT_NAMES then Inl (UnexpectedArtifactInManifest (ma_name e))
      else if \<not> starts_with (ma_digest e) ''sha256:'' \<or> length (ma_digest e) \<noteq> length ''sha256:'' + 64
      then Inl ManifestSchema
      else check_entries es)"

definition validate_artifact_set :: "Manifest \<Rightarrow> EmbeddedArtifact list \<Rightarrow> AttestationError + unit" where
  "validate_artifact_set m artifacts =
     (if length artifacts \<noteq> length REQUIRED_ARTIFACT_NAMES then Inl ManifestSchema
      else
        and_then (check_required m artifacts REQUIRED_ARTIFACT_NAMES) (\<lambda>_.
        and_then (check_entries (mf_artifacts m)) (\<lambda>_.
        if length (mf_artifacts m) \<noteq> length REQUIRED_ARTIFACT_NAMES then Inl ManifestSchema
        else Inr ())))"

text \<open>The digest loop; \<open>AttestPanic\<close> is the failing \<open>expect\<close>.\<close>

fun check_digests ::
  "('k, 's, 'e) CosignApi \<Rightarrow> Manifest \<Rightarrow> EmbeddedArtifact list \<Rightarrow> AttestationError + unit" where
  "check_digests api m [] = Inr ()"
| "check_digests api m (a # as) =
     (case find (\<lambda>e. ma_name e = ea_name a) (mf_artifacts m) of
        None \<Rightarrow> Inl AttestPanic
      | Some entry \<Rightarrow>
          if ea_bytes a = [] then Inl (DigestMismatch (ea_name a))
          else if sha256_digest api (ea_bytes a) \<noteq> ma_digest entry then Inl (DigestMismatch (ea_name a))
          else check_digests api m as)"

definition verify_artifacts ::
  "('k, 's, 'e) CosignApi \<Rightarrow> (bytes \<Rightarrow> Manifest option) \<Rightarrow> (string \<Rightarrow> bool + bytes) \<Rightarrow>
   string \<Rightarrow> string \<Rightarrow> string \<Rightarrow> EmbeddedArtifact list \<Rightarrow> AttestationError + unit" where
  "verify_artifacts api from_slice read manifest_path signature_path public_key_path artifacts =
     and_then (read_file read public_key_path (PublicKeyMissing public_key_path)
       (PublicKeyUnreadable public_key_path)) (\<lambda>public_key_pem.
     and_then (read_file read manifest_path (ManifestMissing manifest_path)
       (ManifestUnreadable manifest_path)) (\<lambda>manifest_bytes.
     and_then (read_file read signature_path (SignatureMissing signature_path)
       (SignatureUnreadable signature_path)) (\<lambda>signature_bytes.
     and_then (verify_cosign_blob_signature api public_key_pem manifest_bytes signature_bytes) (\<lambda>_.
     and_then (ok_or (from_slice manifest_bytes) ManifestParse) (\<lambda>manifest.
     if mf_schema_version manifest \<noteq> EXPECTED_SCHEMA_VERSION then Inl ManifestSchema
     else if trim (mf_git_sha manifest) = [] then Inl ManifestSchema
     else if trim (mf_build_timestamp manifest) = [] then Inl ManifestSchema
     else
       and_then (validate_artifact_set manifest artifacts) (\<lambda>_. check_digests api manifest artifacts))))))"

definition verify_startup ::
  "('k, 's, 'e) CosignApi \<Rightarrow> (bytes \<Rightarrow> Manifest option) \<Rightarrow> (string \<Rightarrow> bool + bytes) \<Rightarrow>
   string option \<Rightarrow> string option \<Rightarrow> string option \<Rightarrow> EmbeddedArtifact list \<Rightarrow> AttestationError + unit" where
  "verify_startup api from_slice read manifest_env sig_env key_env artifacts =
     and_then (paths_from_env manifest_env sig_env key_env) (\<lambda>(manifest, signature, public_key).
     verify_artifacts api from_slice read manifest signature public_key artifacts)"

subsection \<open>Hex digests\<close>

lemma hex_lower_inj: "n < 16 \<Longrightarrow> m < 16 \<Longrightarrow> hex_lower n = hex_lower m \<longleftrightarrow> n = m"
proof -
  have d: "distinct ''0123456789abcdef''" by simp
  assume "n < 16" "m < 16"
  then show ?thesis unfolding hex_lower_def using nth_eq_iff_index_eq [OF d, of n m] by simp
qed

lemma nibbles:
  fixes b :: u8
  shows "unat (drop_bit 4 b) = unat b div 16" "unat (b AND 0xF) = unat b mod 16"
proof -
  show "unat (drop_bit 4 b) = unat b div 16"
    by (simp add: drop_bit_eq_div unat_div)
  have "b AND 0xF = take_bit 4 b" by (simp add: take_bit_eq_mask mask_numeral)
  then show "unat (b AND 0xF) = unat b mod 16"
    by (simp add: take_bit_eq_mod unat_mod)
qed

lemma hex_encode_inj: "length xs = length ys \<Longrightarrow> hex_encode xs = hex_encode ys \<Longrightarrow> xs = ys"
proof (induction xs ys rule: list_induct2)
  case (Cons x xs y ys)
  have lt: "unat (z :: u8) < 256" for z
    using unsigned_less [of z] by simp
  from Cons.prems have
    "hex_lower (unat x div 16) = hex_lower (unat y div 16)" "hex_lower (unat x mod 16) = hex_lower (unat y mod 16)"
    "hex_encode xs = hex_encode ys"
    by (simp_all add: hex_encode_def nibbles)
  moreover have "unat x div 16 < 16" "unat y div 16 < 16" using lt [of x] lt [of y] by simp_all
  ultimately have "unat x div 16 = unat y div 16" "unat x mod 16 = unat y mod 16"
    using hex_lower_inj by simp_all
  then have "unat x = unat y" by (metis div_mult_mod_eq)
  then have "x = y" by (simp only: word_unat_eq_iff)
  with Cons.IH \<open>hex_encode xs = hex_encode ys\<close> show ?case by simp
qed simp

text \<open>Equal digest texts mean equal hashes, as all hashes have one length.\<close>

lemma sha256_digest_eq:
  "length (sha256 api x) = length (sha256 api y) \<Longrightarrow>
   sha256_digest api x = sha256_digest api y \<longleftrightarrow> sha256 api x = sha256 api y"
  using hex_encode_inj by (auto simp: sha256_digest_def)

subsection \<open>What a passing check means\<close>

lemma check_required_Inr:
  "check_required m artifacts rs = Inr u \<longleftrightarrow>
     set rs \<subseteq> ea_name ` set artifacts \<and> set rs \<subseteq> ma_name ` set (mf_artifacts m)"
  by (induction rs) (auto simp: list_ex_iff intro: rev_image_eqI)

lemma check_entries_Inr:
  "check_entries es = Inr u \<longleftrightarrow>
     (\<forall>e \<in> set es. ma_name e \<in> set REQUIRED_ARTIFACT_NAMES \<and> starts_with (ma_digest e) ''sha256:'' \<and>
        length (ma_digest e) = 71)"
  by (induction es) auto

lemma covers_distinct:
  assumes "distinct rs" "set rs \<subseteq> f ` set xs" "length xs = length rs"
  shows "distinct (map f xs)" "f ` set xs = set rs"
proof -
  have "card (f ` set xs) \<le> length xs" by (metis card_length image_set length_map)
  moreover have "card (set rs) = length rs" by (rule distinct_card [OF assms(1)])
  moreover have "card (set rs) \<le> card (f ` set xs)" using assms(2) by (simp add: card_mono)
  ultimately have c: "card (f ` set xs) = length xs" "card (f ` set xs) = card (set rs)" using assms(3) by simp_all
  show "distinct (map f xs)" using c(1) by (intro card_distinct) simp
  show "f ` set xs = set rs" using c(2) assms(2) by (metis card_subset_eq finite_imageI finite_set)
qed

lemma required_distinct: "distinct REQUIRED_ARTIFACT_NAMES"
  by (simp add: REQUIRED_ARTIFACT_NAMES_def)

lemma validate_Inr:
  assumes "validate_artifact_set m artifacts = Inr u"
  shows "distinct (map ea_name artifacts)" "ea_name ` set artifacts = set REQUIRED_ARTIFACT_NAMES"
    "distinct (map ma_name (mf_artifacts m))" "ma_name ` set (mf_artifacts m) = set REQUIRED_ARTIFACT_NAMES"
proof -
  from assms have l: "length artifacts = length REQUIRED_ARTIFACT_NAMES" "length (mf_artifacts m) = length REQUIRED_ARTIFACT_NAMES"
    and "\<exists>u. check_required m artifacts REQUIRED_ARTIFACT_NAMES = Inr u"
    by (auto simp: validate_artifact_set_def split: if_splits)
  then have s: "set REQUIRED_ARTIFACT_NAMES \<subseteq> ea_name ` set artifacts" "set REQUIRED_ARTIFACT_NAMES \<subseteq> ma_name ` set (mf_artifacts m)"
    by (auto simp: check_required_Inr)
  show "distinct (map ea_name artifacts)" "ea_name ` set artifacts = set REQUIRED_ARTIFACT_NAMES"
    by (rule covers_distinct [OF required_distinct s(1) l(1)])+
  show "distinct (map ma_name (mf_artifacts m))" "ma_name ` set (mf_artifacts m) = set REQUIRED_ARTIFACT_NAMES"
    by (rule covers_distinct [OF required_distinct s(2) l(2)])+
qed

lemma find_unique:
  "distinct (map f xs) \<Longrightarrow> find (\<lambda>x. f x = n) xs = Some e \<longleftrightarrow> e \<in> set xs \<and> f e = n"
  by (induction xs) auto

lemma check_digests_cases:
  assumes "distinct (map ma_name (mf_artifacts m))" "ea_name ` set as \<subseteq> ma_name ` set (mf_artifacts m)"
  shows "check_digests api m as \<noteq> Inl AttestPanic"
    "check_digests api m as = Inr u \<longleftrightarrow>
      (\<forall>a \<in> set as. ea_bytes a \<noteq> [] \<and> \<lparr>ma_name = ea_name a, ma_digest = sha256_digest api (ea_bytes a)\<rparr> \<in> set (mf_artifacts m))"
proof -
  have "check_digests api m as \<noteq> Inl AttestPanic \<and> (check_digests api m as = Inr u \<longleftrightarrow>
      (\<forall>a \<in> set as. ea_bytes a \<noteq> [] \<and> \<lparr>ma_name = ea_name a, ma_digest = sha256_digest api (ea_bytes a)\<rparr> \<in> set (mf_artifacts m)))"
    using assms(2)
  proof (induction as)
    case (Cons a as)
    from Cons.prems have "ea_name a \<in> ma_name ` set (mf_artifacts m)" by simp
    then obtain e where e: "e \<in> set (mf_artifacts m)" "ma_name e = ea_name a" by fastforce
    then have f: "find (\<lambda>e. ma_name e = ea_name a) (mf_artifacts m) = Some e"
      by (simp add: find_unique [OF assms(1)])
    have "\<lparr>ma_name = ea_name a, ma_digest = d\<rparr> \<in> set (mf_artifacts m) \<longleftrightarrow> d = ma_digest e" for d
    proof
      assume "\<lparr>ma_name = ea_name a, ma_digest = d\<rparr> \<in> set (mf_artifacts m)"
      then have "find (\<lambda>e. ma_name e = ea_name a) (mf_artifacts m) = Some \<lparr>ma_name = ea_name a, ma_digest = d\<rparr>"
        by (simp add: find_unique [OF assms(1)])
      with f show "d = ma_digest e" by auto
    qed (use e in \<open>metis ManifestArtifact.surjective old.unit.exhaust\<close>)
    with Cons f show ?case by auto
  qed simp
  then show "check_digests api m as \<noteq> Inl AttestPanic"
    "check_digests api m as = Inr u \<longleftrightarrow>
      (\<forall>a \<in> set as. ea_bytes a \<noteq> [] \<and> \<lparr>ma_name = ea_name a, ma_digest = sha256_digest api (ea_bytes a)\<rparr> \<in> set (mf_artifacts m))"
    by blast+
qed

lemma no_panic:
  "verify_cosign_blob_signature api pem msg sig \<noteq> Inl AttestPanic"
  "validate_artifact_set m artifacts \<noteq> Inl AttestPanic"
proof -
  have "parse_ecdsa_signature api raw \<noteq> Inl AttestPanic" for raw
    by (simp add: parse_ecdsa_signature_def ok_or_def split: option.split)
  then show "verify_cosign_blob_signature api pem msg sig \<noteq> Inl AttestPanic"
    unfolding verify_cosign_blob_signature_def ok_or_def Let_def
    by (auto split: option.splits if_splits simp: and_then_Inl)
  have "check_required m artifacts rs \<noteq> Inl AttestPanic" "check_entries es \<noteq> Inl AttestPanic" for rs es
    by (induction rs, auto) (induction es, auto split: if_splits)
  then show "validate_artifact_set m artifacts \<noteq> Inl AttestPanic"
    by (auto simp: validate_artifact_set_def and_then_Inl split: if_splits)
qed

text \<open>
  The conditions under which the embedded objects may be loaded: the manifest is signed as it
  stands, is of the known schema and complete, both lists name exactly the required artifacts,
  each once, and each object is non-empty and has the digest the manifest gives for its name.
\<close>

definition manifest_covers :: "('k, 's, 'e) CosignApi \<Rightarrow> Manifest \<Rightarrow> EmbeddedArtifact list \<Rightarrow> bool" where
  "manifest_covers api m artifacts \<longleftrightarrow>
     distinct (map ea_name artifacts) \<and> set (map ea_name artifacts) = set REQUIRED_ARTIFACT_NAMES \<and>
     distinct (map ma_name (mf_artifacts m)) \<and> set (map ma_name (mf_artifacts m)) = set REQUIRED_ARTIFACT_NAMES \<and>
     (\<forall>e \<in> set (mf_artifacts m). starts_with (ma_digest e) ''sha256:'' \<and> length (ma_digest e) = 71) \<and>
     (\<forall>a \<in> set artifacts. ea_bytes a \<noteq> [] \<and>
        \<lparr>ma_name = ea_name a, ma_digest = sha256_digest api (ea_bytes a)\<rparr> \<in> set (mf_artifacts m))"

definition attested ::
  "('k, 's, 'e) CosignApi \<Rightarrow> (bytes \<Rightarrow> Manifest option) \<Rightarrow> bytes \<Rightarrow> bytes \<Rightarrow> bytes \<Rightarrow> EmbeddedArtifact list \<Rightarrow> bool" where
  "attested api from_slice pem mb sb artifacts \<longleftrightarrow>
     verify_cosign_blob_signature api pem mb sb = Inr () \<and>
     (\<exists>m. from_slice mb = Some m \<and> mf_schema_version m = 1 \<and>
        trim (mf_git_sha m) \<noteq> [] \<and> trim (mf_build_timestamp m) \<noteq> [] \<and> manifest_covers api m artifacts)"

lemma validate_iff:
  "validate_artifact_set m artifacts = Inr () \<longleftrightarrow>
     distinct (map ea_name artifacts) \<and> set (map ea_name artifacts) = set REQUIRED_ARTIFACT_NAMES \<and>
     distinct (map ma_name (mf_artifacts m)) \<and> set (map ma_name (mf_artifacts m)) = set REQUIRED_ARTIFACT_NAMES \<and>
     (\<forall>e \<in> set (mf_artifacts m). starts_with (ma_digest e) ''sha256:'' \<and> length (ma_digest e) = 71)"
  (is "?v \<longleftrightarrow> ?c")
proof
  assume v: ?v
  then have "check_entries (mf_artifacts m) = Inr ()"
    by (auto simp: validate_artifact_set_def split: if_splits)
  with validate_Inr [OF v] show ?c by (simp add: check_entries_Inr)
next
  assume c: ?c
  have len: "length xs = length REQUIRED_ARTIFACT_NAMES"
    if "distinct xs" "set xs = set REQUIRED_ARTIFACT_NAMES" for xs
    using distinct_card [OF that(1)] distinct_card [OF required_distinct] that(2) by simp
  have l: "length artifacts = length REQUIRED_ARTIFACT_NAMES" "length (mf_artifacts m) = length REQUIRED_ARTIFACT_NAMES"
    using c len [of "map ea_name artifacts"] len [of "map ma_name (mf_artifacts m)"] by simp_all
  have r: "check_required m artifacts REQUIRED_ARTIFACT_NAMES = Inr ()"
    using c by (simp add: check_required_Inr)
  have e: "check_entries (mf_artifacts m) = Inr ()"
    unfolding check_entries_Inr
  proof
    fix e assume e: "e \<in> set (mf_artifacts m)"
    then have "ma_name e \<in> set (map ma_name (mf_artifacts m))" by simp
    with c e show "ma_name e \<in> set REQUIRED_ARTIFACT_NAMES \<and> starts_with (ma_digest e) ''sha256:'' \<and> length (ma_digest e) = 71"
      by metis
  qed
  from l r e show ?v by (simp add: validate_artifact_set_def)
qed

text \<open>
  C7. The start-up attestation passes exactly when all three files can be read, the signature
  verifies over the bytes of the manifest as read, and the manifest covers the embedded objects:
  both name exactly the three required artifacts, each once, and every object is non-empty and
  has the SHA-256 digest the manifest states for it. The lookup it relies on never panics.
\<close>

theorem verify_artifacts_exact:
  "verify_artifacts api from_slice read mp sp kp artifacts \<noteq> Inl AttestPanic \<and>
   (verify_artifacts api from_slice read mp sp kp artifacts = Inr () \<longleftrightarrow>
      (\<exists>pem mb sb. read kp = Inr pem \<and> read mp = Inr mb \<and> read sp = Inr sb \<and>
         attested api from_slice pem mb sb artifacts))"
proof -
  have digests: "check_digests api m artifacts \<noteq> Inl AttestPanic"
    "check_digests api m artifacts = Inr () \<longleftrightarrow> manifest_covers api m artifacts"
    if v: "validate_artifact_set m artifacts = Inr ()" for m
  proof -
    note vv = validate_Inr [OF v]
    have sub: "ea_name ` set artifacts \<subseteq> ma_name ` set (mf_artifacts m)" using vv by simp
    show "check_digests api m artifacts \<noteq> Inl AttestPanic" by (rule check_digests_cases(1) [OF vv(3) sub])
    show "check_digests api m artifacts = Inr () \<longleftrightarrow> manifest_covers api m artifacts"
      using v unfolding check_digests_cases(2) [OF vv(3) sub] manifest_covers_def validate_iff by blast
  qed
  have covers: "manifest_covers api m artifacts \<Longrightarrow> validate_artifact_set m artifacts = Inr ()" for m
    unfolding manifest_covers_def validate_iff by blast
  show ?thesis
  proof (cases "\<exists>pem mb sb. read kp = Inr pem \<and> read mp = Inr mb \<and> read sp = Inr sb")
    case False
    then show ?thesis
      by (auto simp: verify_artifacts_def read_file_def split: sum.splits)
  next
    case True
    then obtain pem mb sb where reads: "read kp = Inr pem" "read mp = Inr mb" "read sp = Inr sb" by blast
    show ?thesis
    proof (cases "verify_cosign_blob_signature api pem mb sb = Inr () \<and> from_slice mb \<noteq> None")
      case False
      then show ?thesis
        using reads no_panic(1) [of api pem mb sb]
        by (cases "verify_cosign_blob_signature api pem mb sb")
          (auto simp: verify_artifacts_def read_file_def attested_def ok_or_def)
    next
      case True
      then obtain m where m: "verify_cosign_blob_signature api pem mb sb = Inr ()" "from_slice mb = Some m" by blast
      let ?head = "mf_schema_version m = 1 \<and> trim (mf_git_sha m) \<noteq> [] \<and> trim (mf_build_timestamp m) \<noteq> []"
      have run: "verify_artifacts api from_slice read mp sp kp artifacts =
          (if ?head then and_then (validate_artifact_set m artifacts) (\<lambda>_. check_digests api m artifacts)
           else Inl ManifestSchema)"
        using reads m by (simp add: verify_artifacts_def read_file_def ok_or_def EXPECTED_SCHEMA_VERSION_def)
      have att: "(\<exists>pem mb sb. read kp = Inr pem \<and> read mp = Inr mb \<and> read sp = Inr sb \<and>
          attested api from_slice pem mb sb artifacts) \<longleftrightarrow> ?head \<and> manifest_covers api m artifacts"
        using reads m by (simp add: attested_def)
      show ?thesis
        unfolding run att
        using digests [of m] covers [of m] no_panic(2) [of m artifacts]
        by (cases "validate_artifact_set m artifacts") auto
    qed
  qed
qed

end
