(* ===== verification/Policy_Sync.thy ===== *)
theory Policy_Sync
  imports Lsm_Hook Correlator Attestation
begin

section \<open>Policy sync: \<open>apps/agent-ebpf-sensor/src/policy_sync.rs\<close>\<close>

text \<open>
  The checks a policy bundle passes before it is applied, one sync, its follow-up on the side
  table and one tick of the loop. The HTTP response, the files, the JSON and time parsers and the
  Cosign primitives are arguments. Each reading of a clock is an argument of its own, since the
  source reads it again at each use.
\<close>

definition BUNDLE_CLOCK_SKEW :: duration where "BUNDLE_CLOCK_SKEW = from_secs 5"
definition DEFAULT_RATE_LIMIT_BACKOFF :: duration where "DEFAULT_RATE_LIMIT_BACKOFF = from_secs 1"

datatype sync_error =
  EmptyBearer | FetchFailed | RateLimited "duration option" | AuthRejected nat | HttpStatus nat
  | BodyUnreadable | BundleSignatureMissing | BundleSignatureInvalid | BundleBad bundle_error
  | TemporalMissing | BundleNotYetValid | BundleExpired | IdentityWrite map_error
  | BadBundlePrefix | DenyApply deny_error

subsection \<open>Configuration\<close>

definition clock_skew_from_env :: "string option \<Rightarrow> duration" where
  "clock_skew_from_env env =
     (case env of
        None \<Rightarrow> BUNDLE_CLOCK_SKEW
      | Some raw \<Rightarrow>
          if trim raw = [] then BUNDLE_CLOCK_SKEW
          else (case parse_uint 64 (trim raw) of Some secs \<Rightarrow> from_secs secs | None \<Rightarrow> BUNDLE_CLOCK_SKEW))"

definition parse_retry_after_secs :: "string option \<Rightarrow> duration option" where
  "parse_retry_after_secs raw =
     (case raw of
        None \<Rightarrow> None
      | Some s \<Rightarrow> map_option (\<lambda>secs. from_secs (min secs 300)) (parse_uint 64 (trim s)))"

datatype token_error = TokenPathRelative | TokenUnreadable | TokenFileEmpty | TokenEmpty | TokenUnset

definition load_bundle_token ::
  "(string \<Rightarrow> string option) \<Rightarrow> string option \<Rightarrow> string option \<Rightarrow> token_error + string" where
  "load_bundle_token read_text file_env token_env =
     (let from_env =
            (case token_env of
               None \<Rightarrow> Inl TokenUnset
             | Some t \<Rightarrow> if trim t = [] then Inl TokenEmpty else Inr (trim t)) in
      case file_env of
        None \<Rightarrow> from_env
      | Some p \<Rightarrow>
          (let path = trim p in
           if path = [] then from_env
           else if \<not> starts_with path ''/'' then Inl TokenPathRelative
           else (case read_text path of
                   None \<Rightarrow> Inl TokenUnreadable
                 | Some raw \<Rightarrow> if trim raw = [] then Inl TokenFileEmpty else Inr (trim raw))))"

definition fallback_cosign_pubkey_path :: "string option \<Rightarrow> string" where
  "fallback_cosign_pubkey_path env =
     (case env of
        Some p \<Rightarrow> if trim p \<noteq> [] then trim p else DEFAULT_COSIGN_PUBLIC_KEY_PATH
      | None \<Rightarrow> DEFAULT_COSIGN_PUBLIC_KEY_PATH)"

datatype key_error = KeyPathRelative | KeyUnreadable | KeyEmpty

definition load_bundle_public_key_pem ::
  "(string \<Rightarrow> bytes option) \<Rightarrow> string option \<Rightarrow> string option \<Rightarrow> key_error + bytes" where
  "load_bundle_public_key_pem read_bytes bundle_env cosign_env =
     (let path = (case bundle_env of
                    Some p \<Rightarrow> if trim p \<noteq> [] then trim p else fallback_cosign_pubkey_path cosign_env
                  | None \<Rightarrow> fallback_cosign_pubkey_path cosign_env) in
      if \<not> starts_with path ''/'' then Inl KeyPathRelative
      else (case read_bytes path of
              None \<Rightarrow> Inl KeyUnreadable
            | Some pem \<Rightarrow> if pem = [] then Inl KeyEmpty else Inr pem))"

subsection \<open>Checks before anything is applied\<close>

record FetchedBundle =
  fb_body :: string
  fb_signature_b64 :: "string option"

definition verify_bundle_signature ::
  "('k, 's, 'e) CosignApi \<Rightarrow> bytes \<Rightarrow> string \<Rightarrow> string option \<Rightarrow> sync_error + unit" where
  "verify_bundle_signature api public_key_pem body signature_b64 =
     (case signature_b64 of
        None \<Rightarrow> Inl BundleSignatureMissing
      | Some s \<Rightarrow>
          if trim s = [] then Inl BundleSignatureMissing
          else (case verify_cosign_blob_signature api public_key_pem (str_bytes body) (str_bytes (trim s)) of
                  Inl _ \<Rightarrow> Inl BundleSignatureInvalid
                | Inr _ \<Rightarrow> Inr ()))"

definition verify_bundle_temporal_with_skew ::
  "ParsedPolicyBundle \<Rightarrow> system_time \<Rightarrow> duration \<Rightarrow> sync_error + unit" where
  "verify_bundle_temporal_with_skew parsed now skew =
     (if ppb_schema_version parsed \<noteq> 3 then Inl TemporalMissing
      else (case (ppb_not_before parsed, ppb_not_after parsed) of
              (Some not_before, Some not_after) \<Rightarrow>
                (case checked_add_time now skew of
                   None \<Rightarrow> Inl BundleNotYetValid
                 | Some earliest_ok \<Rightarrow>
                     if earliest_ok < not_before then Inl BundleNotYetValid
                     else (case checked_add_time not_after skew of
                             None \<Rightarrow> Inl BundleExpired
                           | Some latest_ok \<Rightarrow> if now > latest_ok then Inl BundleExpired else Inr ()))
            | _ \<Rightarrow> Inl TemporalMissing))"

text \<open>
  A response: its status, the two headers as text when they are visible ASCII, and the body
  unless reading it fails.
\<close>

record BundleResponse =
  br_status :: nat
  br_retry_after :: "string option"
  br_signature :: "string option"
  br_body :: "string option"

definition fetch_policy_bundle :: "string \<Rightarrow> BundleResponse option \<Rightarrow> sync_error + FetchedBundle" where
  "fetch_policy_bundle bearer_token response =
     (if trim bearer_token = [] then Inl EmptyBearer
      else (case response of
              None \<Rightarrow> Inl FetchFailed
            | Some r \<Rightarrow>
                if br_status r = 429 then Inl (RateLimited (parse_retry_after_secs (br_retry_after r)))
                else if br_status r = 401 \<or> br_status r = 403 then Inl (AuthRejected (br_status r))
                else if \<not> (200 \<le> br_status r \<and> br_status r < 300) then Inl (HttpStatus (br_status r))
                else
                  (let signature_b64 = (case br_signature r of
                                          None \<Rightarrow> None
                                        | Some s \<Rightarrow> if trim s = [] then None else Some (trim s)) in
                   case br_body r of
                     None \<Rightarrow> Inl BodyUnreadable
                   | Some body \<Rightarrow> Inr \<lparr>fb_body = body, fb_signature_b64 = signature_b64\<rparr>)))"

subsection \<open>One sync\<close>

record PolicyTask =
  pt_corr :: Correlator
  pt_sync :: PolicySyncState
  pt_expires :: "system_time option"

text \<open>What a sync takes from outside: parsers, keys, response and clock readings.\<close>

record ('k, 's, 'e) SyncInput =
  si_api :: "('k, 's, 'e) CosignApi"
  si_from_json :: "string \<Rightarrow> BundleDoc option"
  si_rfc3339 :: "string \<Rightarrow> system_time option"
  si_token :: string
  si_public_key :: bytes
  si_skew_env :: "string option"
  si_response :: "BundleResponse option"
  si_parse_now :: system_time
  si_temporal_now :: system_time
  si_instant :: instant

text \<open>The checks of \<open>sync_once\<close>, up to the first write.\<close>

definition accept_bundle :: "('k, 's, 'e) SyncInput \<Rightarrow> sync_error + ParsedPolicyBundle" where
  "accept_bundle i =
     and_then (fetch_policy_bundle (si_token i) (si_response i)) (\<lambda>fetched.
     and_then (verify_bundle_signature (si_api i) (si_public_key i) (fb_body fetched) (fb_signature_b64 fetched)) (\<lambda>_.
     and_then (case parse_policy_bundle_json_at (si_from_json i) (si_rfc3339 i) (fb_body fetched) (si_parse_now i) of
                 Inl e \<Rightarrow> Inl (BundleBad e) | Inr p \<Rightarrow> Inr p) (\<lambda>parsed.
     and_then (verify_bundle_temporal_with_skew parsed (si_temporal_now i) (clock_skew_from_env (si_skew_env i))) (\<lambda>_.
     Inr parsed))))"

definition allowlist_of :: "IdentitySectionValidity \<Rightarrow> PeAllowlistCache" where
  "allowlist_of identity =
     (case identity of Fresh s \<Rightarrow> allowlist_replace (ias_spiffe_ids s) | Invalid _ \<Rightarrow> allowlist_clear)"

definition expires_of :: "IdentitySectionValidity \<Rightarrow> system_time option" where
  "expires_of identity = (case identity of Fresh s \<Rightarrow> Some (ias_expires_at s) | Invalid _ \<Rightarrow> None)"

definition set_maps :: "KernelMaps \<Rightarrow> PolicyTask \<Rightarrow> PolicyTask" where
  "set_maps k t = t\<lparr>pt_corr := (pt_corr t)\<lparr>cr_maps := k\<rparr>\<rparr>"

text \<open>After the freshness flag is written: the expiry and the allowlist cache.\<close>

definition publish_identity :: "bool \<Rightarrow> IdentitySectionValidity \<Rightarrow> KernelMaps \<Rightarrow> PolicyTask \<Rightarrow> PolicyTask" where
  "publish_identity hooks identity k t =
     (let t1 = (set_maps k t)\<lparr>pt_expires := expires_of identity\<rparr> in
      if hooks then t1\<lparr>pt_corr := (pt_corr t1)\<lparr>cr_allow := allowlist_of identity\<rparr>\<rparr> else t1)"

text \<open>Then the deny list, unless the version is the one already applied.\<close>

definition apply_prefixes ::
  "faults \<Rightarrow> instant \<Rightarrow> ParsedPolicyBundle \<Rightarrow> PolicyTask \<Rightarrow> (sync_error + IdentitySectionValidity) \<times> PolicyTask" where
  "apply_prefixes flt now parsed t =
     (let success = (\<lambda>t. t\<lparr>pt_sync := mark_success (ppb_version parsed) now (pt_sync t)\<rparr>) in
      if ppb_version parsed = last_version (pt_sync t) then (Inr (ppb_identity parsed), success t)
      else (case entries_of_prefixes (ppb_deny_path_prefixes parsed) of
              Inl _ \<Rightarrow> (Inl BadBundlePrefix, t)
            | Inr entries \<Rightarrow>
                (case apply_deny_entries flt entries (cr_maps (pt_corr t)) of
                   (Inl e, k) \<Rightarrow> (Inl (DenyApply e), set_maps k t)
                 | (Inr _, k) \<Rightarrow> (Inr (ppb_identity parsed), success (set_maps k t)))))"

definition sync_once ::
  "faults \<Rightarrow> ('k, 's, 'e) SyncInput \<Rightarrow> bool \<Rightarrow> PolicyTask \<Rightarrow> (sync_error + IdentitySectionValidity) \<times> PolicyTask" where
  "sync_once flt i hooks t =
     (case accept_bundle i of
        Inl e \<Rightarrow> (Inl e, t)
      | Inr parsed \<Rightarrow>
          (case apply_identity_validity flt (ppb_identity parsed) (cr_maps (pt_corr t)) of
             (Inl e, k) \<Rightarrow> (Inl (IdentityWrite e), set_maps k t)
           | (Inr _, k) \<Rightarrow>
               apply_prefixes flt (si_instant i) parsed (publish_identity hooks (ppb_identity parsed) k t)))"

definition run_allowlist_followup :: "faults \<Rightarrow> bool \<Rightarrow> IdentitySectionValidity \<Rightarrow> Correlator \<Rightarrow> Correlator" where
  "run_allowlist_followup flt tx identity st =
     (case identity of
        Fresh _ \<Rightarrow> snd (revoke_not_in_allowlist flt tx st)
      | Invalid _ \<Rightarrow> snd (clear_side_table_hygiene flt tx st))"

subsection \<open>The loop\<close>

definition ttl_gate :: "faults \<Rightarrow> system_time \<Rightarrow> PolicyTask \<Rightarrow> PolicyTask" where
  "ttl_gate flt now t = set_maps (snd (invalidate_if_expired flt (pt_expires t) now (cr_maps (pt_corr t)))) t"

text \<open>
  One tick: the TTL gate, a sync, and either the follow-up or the gate again; the first component
  is the time a throttled tick sleeps before the next one. \<open>hooks\<close> says whether the correlator's
  hooks are present, \<open>tx\<close> whether they hold the sender of the inotify worker.
\<close>

definition policy_tick ::
  "faults \<Rightarrow> ('k, 's, 'e) SyncInput \<Rightarrow> bool \<Rightarrow> bool \<Rightarrow> system_time \<Rightarrow> system_time \<Rightarrow> PolicyTask
   \<Rightarrow> duration option \<times> PolicyTask" where
  "policy_tick flt i hooks tx now0 now1 t =
     (case sync_once flt i hooks (ttl_gate flt now0 t) of
        (Inr identity, t1) \<Rightarrow>
          (None, if hooks then t1\<lparr>pt_corr := run_allowlist_followup flt tx identity (pt_corr t1)\<rparr> else t1)
      | (Inl e, t1) \<Rightarrow>
          (let t2 = ttl_gate flt now1 (t1\<lparr>pt_sync := refresh_stale_flag (si_instant i) (pt_sync t1)\<rparr>) in
           case e of
             RateLimited retry \<Rightarrow>
               (Some (case retry of None \<Rightarrow> DEFAULT_RATE_LIMIT_BACKOFF | Some d \<Rightarrow> d), t2)
           | _ \<Rightarrow> (None, t2)))"

text \<open>What the task does once when it has no URL, no token or no key.\<close>

definition policy_sync_disabled :: "faults \<Rightarrow> bool \<Rightarrow> bool \<Rightarrow> invalid_reason \<Rightarrow> PolicyTask \<Rightarrow> PolicyTask" where
  "policy_sync_disabled flt hooks tx reason t =
     (let t1 = set_maps (snd (apply_identity_validity flt (Invalid reason) (cr_maps (pt_corr t)))) t in
      if hooks then
        t1\<lparr>pt_corr := run_allowlist_followup flt tx (Invalid reason) ((pt_corr t1)\<lparr>cr_allow := allowlist_clear\<rparr>)\<rparr>
      else t1)"

subsection \<open>Nothing unverified is applied\<close>

text \<open>The conditions a bundle meets before the first write.\<close>

definition verified_bundle :: "('k, 's, 'e) SyncInput \<Rightarrow> ParsedPolicyBundle \<Rightarrow> bool" where
  "verified_bundle i parsed \<longleftrightarrow>
     (\<exists>resp body sig nb na.
        si_response i = Some resp \<and> 200 \<le> br_status resp \<and> br_status resp < 300 \<and> br_body resp = Some body \<and>
        verify_cosign_blob_signature (si_api i) (si_public_key i) (str_bytes body) sig = Inr () \<and>
        parse_policy_bundle_json_at (si_from_json i) (si_rfc3339 i) body (si_parse_now i) = Inr parsed \<and>
        ppb_schema_version parsed = 3 \<and> ppb_not_before parsed = Some nb \<and> ppb_not_after parsed = Some na \<and>
        nb \<le> si_temporal_now i + int (clock_skew_from_env (si_skew_env i)) \<and>
        si_temporal_now i \<le> na + int (clock_skew_from_env (si_skew_env i)))"

lemma temporal_Inr:
  "verify_bundle_temporal_with_skew parsed now skew = Inr () \<Longrightarrow>
   ppb_schema_version parsed = 3 \<and> (\<exists>nb na. ppb_not_before parsed = Some nb \<and> ppb_not_after parsed = Some na \<and>
     nb \<le> now + int skew \<and> now \<le> na + int skew)"
  by (auto simp: verify_bundle_temporal_with_skew_def dest!: checked_add_time_Some split: if_splits option.splits)

lemma accept_bundle_Inr:
  assumes "accept_bundle i = Inr parsed"
  shows "verified_bundle i parsed"
proof -
  from assms obtain fetched p where "fetch_policy_bundle (si_token i) (si_response i) = Inr fetched"
    "verify_bundle_signature (si_api i) (si_public_key i) (fb_body fetched) (fb_signature_b64 fetched) = Inr ()"
    "(case parse_policy_bundle_json_at (si_from_json i) (si_rfc3339 i) (fb_body fetched) (si_parse_now i) of
        Inl e \<Rightarrow> Inl (BundleBad e) | Inr p \<Rightarrow> Inr p) = Inr parsed"
    "verify_bundle_temporal_with_skew parsed (si_temporal_now i) (clock_skew_from_env (si_skew_env i)) = Inr ()"
    unfolding accept_bundle_def and_then_Inr by auto
  then obtain fetched where f: "fetch_policy_bundle (si_token i) (si_response i) = Inr fetched"
    and s: "verify_bundle_signature (si_api i) (si_public_key i) (fb_body fetched) (fb_signature_b64 fetched) = Inr ()"
    and p: "parse_policy_bundle_json_at (si_from_json i) (si_rfc3339 i) (fb_body fetched) (si_parse_now i) = Inr parsed"
    and t: "verify_bundle_temporal_with_skew parsed (si_temporal_now i) (clock_skew_from_env (si_skew_env i)) = Inr ()"
    by (auto split: sum.splits)
  from f obtain resp where r: "si_response i = Some resp" "200 \<le> br_status resp" "br_status resp < 300"
    "br_body resp = Some (fb_body fetched)"
    by (auto simp: fetch_policy_bundle_def Let_def split: if_splits option.splits)
  from s obtain sig where v: "verify_cosign_blob_signature (si_api i) (si_public_key i) (str_bytes (fb_body fetched)) sig = Inr ()"
    by (auto simp: verify_bundle_signature_def split: option.splits if_splits sum.splits)
  from r v p temporal_Inr [OF t] show ?thesis unfolding verified_bundle_def by blast
qed

text \<open>
  C4. A sync changes nothing and reports no success unless the response was successful, its
  signature verifies over the exact body, the body parses, carries schema 3 and both bounds, and
  the clock lies between them up to the configured skew.
\<close>

theorem sync_once_verified_only:
  assumes "sync_once flt i hooks t = (r, t')" "t' \<noteq> t \<or> r = Inr identity"
  shows "\<exists>parsed. accept_bundle i = Inr parsed \<and> verified_bundle i parsed"
proof (cases "accept_bundle i")
  case (Inl e)
  with assms show ?thesis by (simp add: sync_once_def)
next
  case (Inr parsed)
  with accept_bundle_Inr show ?thesis by blast
qed

subsection \<open>What a successful sync establishes\<close>

lemma set_maps_simps [simp]:
  "cr_maps (pt_corr (set_maps k t)) = k" "cr_table (pt_corr (set_maps k t)) = cr_table (pt_corr t)"
  "cr_allow (pt_corr (set_maps k t)) = cr_allow (pt_corr t)" "pt_sync (set_maps k t) = pt_sync t"
  "pt_expires (set_maps k t) = pt_expires t"
  by (simp_all add: set_maps_def)

lemma apply_identity_validity_result:
  assumes "wf_maps k" "apply_identity_validity flt identity k = (r, k')"
  shows "wf_maps k'" "r = Inr u \<Longrightarrow> ID_EXCEPT_VALID k' = [case identity of Fresh _ \<Rightarrow> 1 | Invalid _ \<Rightarrow> 0]"
    "r = Inl e \<Longrightarrow> ID_EXCEPT_VALID k' = ID_EXCEPT_VALID k"
    "PATH_DENY_LIST k' = PATH_DENY_LIST k" "PATH_DENY_COUNT k' = PATH_DENY_COUNT k"
    "ID_ALLOW_CGROUP k' = ID_ALLOW_CGROUP k"
proof -
  define b where "b = (case identity of Fresh _ \<Rightarrow> True | Invalid _ \<Rightarrow> False)"
  have run: "set_exceptions_valid flt b k = (r, k')"
    using assms(2) by (cases identity) (simp_all add: apply_identity_validity_def b_def)
  note res = set_exceptions_valid_result [OF assms(1) run]
  show "wf_maps k'" "r = Inl e \<Longrightarrow> ID_EXCEPT_VALID k' = ID_EXCEPT_VALID k"
    "PATH_DENY_LIST k' = PATH_DENY_LIST k" "PATH_DENY_COUNT k' = PATH_DENY_COUNT k"
    "ID_ALLOW_CGROUP k' = ID_ALLOW_CGROUP k"
    using res by auto
  show "r = Inr u \<Longrightarrow> ID_EXCEPT_VALID k' = [case identity of Fresh _ \<Rightarrow> 1 | Invalid _ \<Rightarrow> 0]"
    using res(2) b_def by (cases identity) auto
qed

lemma publish_identity_simps [simp]:
  "cr_maps (pt_corr (publish_identity hooks identity k t)) = k"
  "pt_expires (publish_identity hooks identity k t) = expires_of identity"
  "cr_allow (pt_corr (publish_identity hooks identity k t)) =
     (if hooks then allowlist_of identity else cr_allow (pt_corr t))"
  "cr_table (pt_corr (publish_identity hooks identity k t)) = cr_table (pt_corr t)"
  "pt_sync (publish_identity hooks identity k t) = pt_sync t"
  by (simp_all add: publish_identity_def Let_def)

lemma apply_prefixes_frame:
  assumes "apply_prefixes flt now parsed t = (r, t')" "wf_maps (cr_maps (pt_corr t))"
  shows "pt_expires t' = pt_expires t" "cr_table (pt_corr t') = cr_table (pt_corr t)"
    "cr_allow (pt_corr t') = cr_allow (pt_corr t)"
    "ID_EXCEPT_VALID (cr_maps (pt_corr t')) = ID_EXCEPT_VALID (cr_maps (pt_corr t))"
    "ID_ALLOW_CGROUP (cr_maps (pt_corr t')) = ID_ALLOW_CGROUP (cr_maps (pt_corr t))"
    "wf_maps (cr_maps (pt_corr t'))" "r = Inr x \<Longrightarrow> x = ppb_identity parsed"
    "r \<noteq> Inl (RateLimited d)"
proof -
  have "pt_expires t' = pt_expires t \<and> cr_table (pt_corr t') = cr_table (pt_corr t) \<and>
    cr_allow (pt_corr t') = cr_allow (pt_corr t) \<and>
    ID_EXCEPT_VALID (cr_maps (pt_corr t')) = ID_EXCEPT_VALID (cr_maps (pt_corr t)) \<and>
    ID_ALLOW_CGROUP (cr_maps (pt_corr t')) = ID_ALLOW_CGROUP (cr_maps (pt_corr t)) \<and>
    wf_maps (cr_maps (pt_corr t')) \<and> (r = Inr x \<longrightarrow> x = ppb_identity parsed) \<and> r \<noteq> Inl (RateLimited d)"
  proof (cases "ppb_version parsed = last_version (pt_sync t)")
    case True
    with assms show ?thesis by (auto simp: apply_prefixes_def Let_def)
  next
    case ne: False
    show ?thesis
    proof (cases "entries_of_prefixes (ppb_deny_path_prefixes parsed)")
      case (Inl e)
      with assms ne show ?thesis by (auto simp: apply_prefixes_def Let_def)
    next
      case (Inr entries)
      obtain r1 k where a: "apply_deny_entries flt entries (cr_maps (pt_corr t)) = (r1, k)" by fastforce
      note fr = apply_deny_entries_frame [OF assms(2) a]
      from assms(1) ne Inr a fr show ?thesis
        by (cases r1) (auto simp: apply_prefixes_def Let_def)
    qed
  qed
  then show "pt_expires t' = pt_expires t" "cr_table (pt_corr t') = cr_table (pt_corr t)"
    "cr_allow (pt_corr t') = cr_allow (pt_corr t)"
    "ID_EXCEPT_VALID (cr_maps (pt_corr t')) = ID_EXCEPT_VALID (cr_maps (pt_corr t))"
    "ID_ALLOW_CGROUP (cr_maps (pt_corr t')) = ID_ALLOW_CGROUP (cr_maps (pt_corr t))"
    "wf_maps (cr_maps (pt_corr t'))" "r = Inr x \<Longrightarrow> x = ppb_identity parsed"
    "r \<noteq> Inl (RateLimited d)" by auto
qed

lemma sync_once_cases:
  assumes "sync_once flt i hooks t = (r, t')"
  obtains (rejected) e where "accept_bundle i = Inl e" "r = Inl e" "t' = t"
  | (identity) parsed e k where "accept_bundle i = Inr parsed" "r = Inl (IdentityWrite e)" "t' = set_maps k t"
      "apply_identity_validity flt (ppb_identity parsed) (cr_maps (pt_corr t)) = (Inl e, k)"
  | (applied) parsed k where "accept_bundle i = Inr parsed"
      "apply_identity_validity flt (ppb_identity parsed) (cr_maps (pt_corr t)) = (Inr (), k)"
      "apply_prefixes flt (si_instant i) parsed (publish_identity hooks (ppb_identity parsed) k t) = (r, t')"
proof (cases "accept_bundle i")
  case (Inl e)
  with assms rejected show thesis by (simp add: sync_once_def)
next
  case (Inr parsed)
  obtain r1 k where a: "apply_identity_validity flt (ppb_identity parsed) (cr_maps (pt_corr t)) = (r1, k)" by fastforce
  show thesis
  proof (cases r1)
    case e: (Inl e)
    have "r = Inl (IdentityWrite e)" "t' = set_maps k t" using assms Inr a e by (simp_all add: sync_once_def)
    from identity [OF Inr this a [unfolded e]] show thesis .
  next
    case u: (Inr u)
    have "apply_prefixes flt (si_instant i) parsed (publish_identity hooks (ppb_identity parsed) k t) = (r, t')"
      using assms Inr a u by (simp add: sync_once_def)
    with a u show thesis by (intro applied [OF Inr]) simp_all
  qed
qed

lemma typed_same_list: "typed_maps k \<Longrightarrow> wf_maps k' \<Longrightarrow> PATH_DENY_LIST k' = PATH_DENY_LIST k \<Longrightarrow> typed_maps k'"
  by (simp add: typed_maps_def)

lemma applied_blacklist:
  assumes "typed_maps k" "entries_of_prefixes ps = Inr es" "apply_deny_entries flt es k = (Inr u, k')"
  shows "is_blacklisted_path k' w \<longleftrightarrow> list_ex (\<lambda>p. starts_with w (str_bytes p)) ps"
proof -
  note es = entries_of_prefixes_Inr [OF assms(2)]
  have wf: "wf_maps k" using assms(1) by (simp add: typed_maps_def)
  have "typed_maps k'" by (rule typed_apply [OF assms(1) wf_entries_typed [OF es(1)] assms(3)])
  then have "is_blacklisted_path k' w \<longleftrightarrow> (\<exists>x \<in> set (map entry_prefix es). starts_with w x)"
    by (auto simp: is_blacklisted_path_iff active_after_apply [OF wf assms(3)] map_backed_iff [OF es(1)])
  then show ?thesis by (simp add: es(2) list_ex_iff)
qed


subsection \<open>The TTL gate\<close>

text \<open>
  \<open>valid_until now t\<close>: exceptions are honoured only with a stored expiry that lies after \<open>now\<close>.
\<close>

definition valid_until :: "system_time \<Rightarrow> PolicyTask \<Rightarrow> bool" where
  "valid_until now t \<longleftrightarrow>
     (ID_EXCEPT_VALID (cr_maps (pt_corr t)) = [0] \<or> (\<exists>ex. pt_expires t = Some ex \<and> now < ex))"

lemma ttl_gate_result:
  assumes "wf_maps (cr_maps (pt_corr t))" "never_refused flt"
  shows "valid_until now (ttl_gate flt now t)" "wf_maps (cr_maps (pt_corr (ttl_gate flt now t)))"
proof -
  have ok: "\<exists>k'. set_exceptions_valid flt False k = (Inr (), k') \<and> wf_maps k' \<and> ID_EXCEPT_VALID k' = [0]" if "wf_maps k" for k
  proof -
    obtain r k' where s: "set_exceptions_valid flt False k = (r, k')" by fastforce
    have "r = Inr ()"
      using s assms(2) that by (cases "ID_EXCEPT_VALID k") (auto simp: set_exceptions_valid_def
          except_valid_set_def map_call_def never_refused_def array_set_def wf_maps_def Let_def)
    with set_exceptions_valid_result(1,2) [OF that s] s show ?thesis by auto
  qed
  have "valid_until now (ttl_gate flt now t) \<and> wf_maps (cr_maps (pt_corr (ttl_gate flt now t)))"
    using ok [OF assms(1)] assms(1)
    by (auto simp: ttl_gate_def invalidate_if_expired_def valid_until_def split: option.splits)
  then show "valid_until now (ttl_gate flt now t)" "wf_maps (cr_maps (pt_corr (ttl_gate flt now t)))" by auto
qed

lemma followup_frame:
  "ID_EXCEPT_VALID (cr_maps (run_allowlist_followup flt tx identity st)) = ID_EXCEPT_VALID (cr_maps st)"
proof -
  have each: "ID_EXCEPT_VALID (snd (remove_each flt ids k)) = ID_EXCEPT_VALID k" for ids k
  proof (induction ids arbitrary: k)
    case (Cons i ids)
    obtain r k1 where s: "remove_allow_cgroup flt i k = (r, k1)" by fastforce
    with Cons remove_allow_cgroup_result(5) [OF s] show ?case by (cases r) auto
  qed simp
  have "ID_EXCEPT_VALID (cr_maps (snd (apply_invalidations flt ids st'))) = ID_EXCEPT_VALID (cr_maps st')" for ids st'
    using each [of ids "cr_maps st'"] unfolding apply_invalidations_def
    by (cases "remove_each flt ids (cr_maps st')") (auto split: sum.split)
  then show ?thesis
    unfolding run_allowlist_followup_def revoke_not_in_allowlist_def clear_side_table_hygiene_def Let_def
    by (auto split: IdentitySectionValidity.split prod.split)
qed


subsection \<open>A sync that fails half-way\<close>

text \<open>
  C35. The freshness flag and the allowlist are published before the deny list is converted, and
  the revocation runs only after a full success. When a verified, fresh bundle drops an identity
  but carries a prefix that does not convert, the tick ends with exceptions switched on and with
  the exception of the dropped identity still in the kernel map.
\<close>

theorem failed_sync_skips_revocation:
  assumes "wf_maps (cr_maps (pt_corr t))" "\<forall>n. flt n = None" "accept_bundle i = Inr parsed"
    "ppb_identity parsed = Fresh sec" "now1 < ias_expires_at sec"
    "ppb_version parsed \<noteq> last_version (pt_sync t)" "entries_of_prefixes (ppb_deny_path_prefixes parsed) = Inl de"
    "rows (cr_table (pt_corr t)) cg = Some e" "se_spiffe_id e \<notin> set (ias_spiffe_ids sec)"
    "policy_tick flt i True tx now0 now1 t = (b, t')"
  shows "ID_EXCEPT_VALID (cr_maps (pt_corr t')) = [1] \<and>
    ID_ALLOW_CGROUP (cr_maps (pt_corr t')) cg = ID_ALLOW_CGROUP (cr_maps (pt_corr t)) cg \<and>
    rows (cr_table (pt_corr t')) cg = Some e \<and> se_spiffe_id e \<notin> cr_allow (pt_corr t')"
proof -
  have nf: "never_refused flt" using assms(2) by (simp add: never_refused_def)
  let ?t0 = "ttl_gate flt now0 t"
  note g = ttl_gate_result(2) [OF assms(1) nf, of now0]
  have allow0: "ID_ALLOW_CGROUP (cr_maps (pt_corr ?t0)) = ID_ALLOW_CGROUP (cr_maps (pt_corr t))"
  proof -
    have keep: "ID_ALLOW_CGROUP (snd (set_exceptions_valid flt False (cr_maps (pt_corr t)))) = ID_ALLOW_CGROUP (cr_maps (pt_corr t))"
      using set_exceptions_valid_result(6) [OF assms(1) prod.collapse [symmetric]] .
    then show ?thesis
      by (cases "set_exceptions_valid flt False (cr_maps (pt_corr t))")
        (auto simp: ttl_gate_def invalidate_if_expired_def split: option.split sum.split)
  qed
  have sync0: "pt_sync ?t0 = pt_sync t" "cr_table (pt_corr ?t0) = cr_table (pt_corr t)" by (simp_all add: ttl_gate_def)
  obtain r k where a: "apply_identity_validity flt (ppb_identity parsed) (cr_maps (pt_corr ?t0)) = (r, k)" by fastforce
  note id = apply_identity_validity_result [OF g a]
  have r: "r = Inr ()"
    using a nf g assms(4)
    by (cases "ID_EXCEPT_VALID (cr_maps (pt_corr ?t0))") (auto simp: apply_identity_validity_def set_exceptions_valid_def
        except_valid_set_def map_call_def never_refused_def array_set_def wf_maps_def Let_def)
  let ?t2 = "publish_identity True (ppb_identity parsed) k ?t0"
  have s: "sync_once flt i True ?t0 = (Inl BadBundlePrefix, ?t2)"
    using assms(3,6,7) a r sync0 by (simp add: sync_once_def apply_prefixes_def)
  have t': "t' = ttl_gate flt now1 (?t2\<lparr>pt_sync := refresh_stale_flag (si_instant i) (pt_sync ?t2)\<rparr>)"
    using assms(10) s by (simp add: policy_tick_def Let_def)
  have "cr_maps (pt_corr t') = k" "cr_table (pt_corr t') = cr_table (pt_corr t)"
    "cr_allow (pt_corr t') = set (ias_spiffe_ids sec)"
    unfolding t' using assms(4,5) sync0
    by (simp_all add: ttl_gate_def invalidate_if_expired_def expires_of_def allowlist_of_def allowlist_replace_def)
  with id(2) [OF r] id(6) allow0 assms(4,8,9) show ?thesis by simp
qed

lemma not_throttled:
  "verify_bundle_signature api pem body sig \<noteq> Inl (RateLimited d)"
  "verify_bundle_temporal_with_skew parsed now skew \<noteq> Inl (RateLimited d)"
  by (auto simp: verify_bundle_signature_def verify_bundle_temporal_with_skew_def
      split: sum.splits option.splits)


subsection \<open>A concrete sync\<close>

definition demo_api :: "(unit, unit, unit) CosignApi" where
  "demo_api = \<lparr>b64_decode = (\<lambda>_. Some []), p256_from_pem = (\<lambda>_. Some ()), ecdsa_from_der = (\<lambda>_. Some ()),
     ecdsa_from_slice = (\<lambda>_. None), p256_verify = (\<lambda>_ _ _. True), ed25519_from_pem = (\<lambda>_. None),
     ed25519_sig_len = 64, ed25519_verify_strict = (\<lambda>_ _ _. False), sha256 = (\<lambda>_. [])\<rparr>"

definition demo_time :: "string \<Rightarrow> system_time option" where
  "demo_time s = (if s = ''a'' then Some 0 else if s = ''z'' then Some 100 else None)"

definition demo_doc :: "string list \<Rightarrow> string list \<Rightarrow> BundleDoc" where
  "demo_doc ps ids =
     \<lparr>bd_schema_version = 3, bd_version = ''v2'', bd_deny_path_prefixes = ps,
      bd_identity_allow_exceptions = Some \<lparr>id_scope_path_prefix = ''/tmp/'', id_spiffe_ids = ids,
        id_issued_at = ''a'', id_expires_at = ''z''\<rparr>,
      bd_not_before = Some ''a'', bd_not_after = Some ''z''\<rparr>"

definition demo_sync :: "string list \<Rightarrow> string list \<Rightarrow> (unit, unit, unit) SyncInput" where
  "demo_sync ps ids =
     \<lparr>si_api = demo_api, si_from_json = (\<lambda>_. Some (demo_doc ps ids)), si_rfc3339 = demo_time,
      si_token = ''t'', si_public_key = [], si_skew_env = None,
      si_response = Some \<lparr>br_status = 200, br_retry_after = None, br_signature = Some ''s'', br_body = Some ''b''\<rparr>,
      si_parse_now = 0, si_temporal_now = 0, si_instant = 0\<rparr>"

definition demo_section :: "string list \<Rightarrow> IdentityAllowSection" where
  "demo_section ids = \<lparr>ias_scope_path_prefix = ''/tmp/'', ias_spiffe_ids = ids, ias_issued_at = 0, ias_expires_at = 100\<rparr>"

definition demo_bundle :: "string list \<Rightarrow> string list \<Rightarrow> ParsedPolicyBundle" where
  "demo_bundle ps ids =
     \<lparr>ppb_schema_version = 3, ppb_version = ''v2'', ppb_deny_path_prefixes = ps,
      ppb_identity = Fresh (demo_section ids), ppb_not_before = Some 0, ppb_not_after = Some 100\<rparr>"

lemma demo_letters: "trim ''a'' = ''a''" "trim ''z'' = ''z''" "trim ''s'' = ''s''" "trim ''t'' = ''t''"
  by (rule trim_visible; simp add: visible_def)+

lemma demo_signature: "verify_bundle_signature demo_api [] body (Some ''s'') = Inr ()"
proof -
  have "utf8_valid (str_bytes ''s'')" by (simp add: utf8_valid_ascii_Cons str_bytes_def)
  then have "from_utf8 (str_bytes ''s'') = Some ''s''" by (simp only: from_utf8_def bytes_str_str_bytes if_True)
  moreover have "from_utf8 [] = Some []" by (simp add: from_utf8_def bytes_str_def)
  ultimately show ?thesis
    by (simp add: verify_bundle_signature_def verify_cosign_blob_signature_def demo_letters demo_api_def ok_or_def
        parse_ecdsa_signature_def)
qed

lemma demo_parse:
  "ps \<noteq> [] \<Longrightarrow> parse_policy_bundle_json_at (\<lambda>_. Some (demo_doc ps ids)) demo_time body 0 = Inr (demo_bundle ps ids)"
  by (simp add: parse_policy_bundle_json_at_def demo_doc_def ok_or_def parse_bound_def parse_rfc3339_def demo_time_def
      demo_letters identity_of_doc_def evaluate_identity_section_def REQUIRED_SCOPE_PATH_PREFIX_def
      IDENTITY_EXCEPTION_SCOPE_PREFIX_def demo_bundle_def demo_section_def)

lemma demo_accept: "ps \<noteq> [] \<Longrightarrow> accept_bundle (demo_sync ps ids) = Inr (demo_bundle ps ids)"
proof -
  assume ps: "ps \<noteq> []"
  have t: "verify_bundle_temporal_with_skew (demo_bundle ps ids) 0 (clock_skew_from_env None) = Inr ()"
    by (simp add: verify_bundle_temporal_with_skew_def demo_bundle_def clock_skew_from_env_def BUNDLE_CLOCK_SKEW_def
        from_secs_def checked_add_time_def Let_def)
  show ?thesis
    by (simp add: accept_bundle_def demo_sync_def fetch_policy_bundle_def demo_letters demo_signature
        demo_parse [OF ps] t)
qed

definition demo_task :: PolicyTask where
  "demo_task = \<lparr>pt_corr = demo_seeded, pt_sync = fresh_sync_state ''v1'' 0, pt_expires = Some 50\<rparr>"

lemma demo_seeded_typed: "typed_maps (cr_maps demo_seeded)"
proof -
  have typed: "typed_maps fresh_maps" by code_simp
  have "PATH_DENY_LIST (cr_maps demo_seeded) = PATH_DENY_LIST fresh_maps" "wf_maps (cr_maps demo_seeded)"
    using demo_reconcile [of demo_start "\<lambda>_. None"] wf_fresh_maps
    by (simp_all add: demo_seeded_def demo_start_def corr_init_def insert_section_small side_table_new_def seed_section_def
        seed_allow_cgroup_def allow_cgroup_insert_def map_call_def Let_def wf_maps_def)
  with typed_same_list [OF typed] show ?thesis by simp
qed

lemma demo_task_typed: "typed_maps (cr_maps (pt_corr demo_task))" "wf_maps (cr_maps (pt_corr demo_task))"
  using demo_seeded_typed by (simp_all add: demo_task_def typed_maps_def)

theorem failed_sync_skips_revocation_witness:
  "\<exists>b t'. policy_tick (\<lambda>_. None) (demo_sync [[]] []) True True 0 0 demo_task = (b, t') \<and>
     ID_EXCEPT_VALID (cr_maps (pt_corr t')) = [1] \<and>
     ID_ALLOW_CGROUP (cr_maps (pt_corr t')) 7 = Some IDENTITY_ALLOW_VALUE \<and>
     rows (cr_table (pt_corr t')) 7 = Some demo_row \<and> se_spiffe_id demo_row \<notin> cr_allow (pt_corr t')"
proof -
  obtain b t' where run: "policy_tick (\<lambda>_. None) (demo_sync [[]] []) True True 0 0 demo_task = (b, t')" by fastforce
  have bad: "entries_of_prefixes (ppb_deny_path_prefixes (demo_bundle [[]] [])) = Inl (BadPrefix [])"
    by (simp add: entries_of_prefixes_def demo_bundle_def from_prefix_def str_bytes_def ok_or_def)
  have rest: "ppb_version (demo_bundle [[]] []) \<noteq> last_version (pt_sync demo_task)"
    "rows (cr_table (pt_corr demo_task)) 7 = Some demo_row"
    "ppb_identity (demo_bundle [[]] []) = Fresh (demo_section [])" "0 < ias_expires_at (demo_section [])"
    "se_spiffe_id demo_row \<notin> set (ias_spiffe_ids (demo_section []))"
    by (simp_all add: demo_bundle_def demo_task_def fresh_sync_state_def demo_seeded_state demo_section_def)
  from failed_sync_skips_revocation [OF demo_task_typed(2) _ demo_accept rest(3,4,1) bad rest(2,5) run] run
  show ?thesis by (auto simp: demo_task_def demo_seeded_state)
qed


lemma demo_sync_runs:
  "\<exists>t'. sync_once (\<lambda>_. None) (demo_sync [''/opt/''] []) True demo_task = (Inr (Fresh (demo_section [])), t')"
proof -
  let ?flt = "\<lambda>_ :: nat. None :: nat option"
  let ?p = "demo_bundle [''/opt/''] []"
  obtain r k where a: "apply_identity_validity ?flt (ppb_identity ?p) (cr_maps (pt_corr demo_task)) = (r, k)" by fastforce
  note id = apply_identity_validity_result [OF demo_task_typed(2) a]
  have r: "r = Inr ()"
    using a demo_task_typed(2)
    by (cases "ID_EXCEPT_VALID (cr_maps (pt_corr demo_task))") (auto simp: apply_identity_validity_def set_exceptions_valid_def
        except_valid_set_def map_call_def array_set_def wf_maps_def Let_def demo_bundle_def)
  obtain es where es: "entries_of_prefixes [''/opt/''] = Inr es"
    using entries_of_prefixes_total [of "[''/opt/'']"] by (auto simp: PATH_DENY_KEY_BYTES_def)
  note e = entries_of_prefixes_Inr [OF es]
  have "list_all valid_len es" using e(1) by (auto simp: list_all_iff intro: wf_entry_valid_len)
  moreover have "es \<noteq> []" "length es \<le> PATH_DENY_MAX_ENTRIES" using e(3) by (auto simp: PATH_DENY_MAX_ENTRIES_def)
  ultimately obtain k' where k': "apply_deny_entries ?flt es k = (Inr (), k')"
    using apply_deny_entries_progress [OF id(1), of ?flt es] by auto
  have ne: "ppb_version ?p \<noteq> last_version (pt_sync demo_task)"
    by (simp add: demo_bundle_def demo_task_def fresh_sync_state_def)
  have "ppb_deny_path_prefixes ?p = [''/opt/'']" "ppb_identity ?p = Fresh (demo_section [])"
    by (simp_all add: demo_bundle_def)
  with a r es k' ne demo_accept [of "[''/opt/'']" "[]"] show ?thesis
    by (simp add: sync_once_def apply_prefixes_def Let_def)
qed


theorem sync_once_verified_only_witness:
  "\<exists>parsed. accept_bundle (demo_sync [''/opt/''] []) = Inr parsed \<and> verified_bundle (demo_sync [''/opt/''] []) parsed"
proof -
  obtain t' where run: "sync_once (\<lambda>_. None) (demo_sync [''/opt/''] []) True demo_task = (Inr (Fresh (demo_section [])), t')"
    using demo_sync_runs by blast
  from sync_once_verified_only [OF run] show ?thesis by blast
qed


end
