(* ===== verification/Pin_Io.thy ===== *)
theory Pin_Io
  imports Path_Deny "HOL-Library.AList" "HOL-Library.Char_ord" "HOL-Library.List_Lexorder" "HOL-Library.Product_Lexorder"
begin

section \<open>The pin directory: the trait \<open>PinAbiIo\<close> of \<open>apps/agent-ebpf-sensor/src/pin_abi.rs\<close>\<close>

text \<open>
  A bpffs tree as the agent sees it. A path is the list of its components, a node is a
  directory or the pin of a kernel object, and renaming a pin never touches the object. Map
  objects live in a store of their own because the program of a pinned link keeps using its
  maps after their pins have moved. The trait \<open>PinAbiIo\<close> is a record of operations over an
  abstract state; \<open>RealPinAbiIo\<close> is its instance on the tree. Every call that changes the tree
  is numbered, and the argument \<open>faults\<close> says which ones fail: a run in which all calls from
  the n-th on fail is an agent killed before its n-th call.
\<close>

type_synonym pin_path = "string list"

record ObservedMapInfo =
  map_type :: u32
  key_size :: u32
  value_size :: u32
  max_entries :: u32

text \<open>The contents of a pinned map, as its element type reads them.\<close>

datatype MapBody =
    LegacyEntries "LegacyPathDenyEntry list"
  | DenyEntries "PathDenyEntry list"
  | Counters "u32 list"
  | OpaqueBody

record MapObject =
  mo_info :: ObservedMapInfo
  mo_body :: MapBody

text \<open>A link pin records the deny list and the count its program was loaded with.\<close>

datatype PinNode = DirNode | MapPin nat | LinkPin nat nat

record BpfFs =
  bf_tick :: nat
  bf_nodes :: "(pin_path \<times> PinNode) list"
  bf_store :: "(nat \<times> MapObject) list"

abbreviation bf_objs :: "BpfFs \<Rightarrow> nat \<Rightarrow> MapObject option" where
  "bf_objs s \<equiv> map_of (bf_store s)"

abbreviation pin_node :: "BpfFs \<Rightarrow> pin_path \<Rightarrow> PinNode option" where
  "pin_node s \<equiv> map_of (bf_nodes s)"

abbreviation join :: "pin_path \<Rightarrow> string \<Rightarrow> pin_path" where
  "join d n \<equiv> d @ [n]"

datatype pin_detail =
    PairIncomplete
  | ListLayout ObservedMapInfo
  | CountLayout ObservedMapInfo

datatype pin_error =
    IoFault nat
  | NoSuchPin pin_path
  | NotADirectory pin_path
  | NotAMap pin_path
  | NotAnArray pin_path
  | NoElement pin_path
  | EmptyLegacyCount
  | BadLegacyLen nat
  | PinMissing string
  | AbiIncompatible string pin_detail
  | NamespaceExhausted
  | CanonicalPinsMissing
  | NonEmptyCanonical u32
  | BadBootstrapPrefix bytes
  | EmptyBootstrap
  | BpffsNotMounted
  | PinExists pin_path
  | AttachRefused nat
  | LoadRefused nat
  | InconsistentPins
  | EmptyPinnedCount
  | SeedFailed deny_error

record 's PinAbiIo =
  io_exists :: "'s \<Rightarrow> pin_path \<Rightarrow> bool"
  io_is_dir :: "'s \<Rightarrow> pin_path \<Rightarrow> bool"
  io_create_dir_all :: "pin_path \<Rightarrow> 's \<Rightarrow> (pin_error + unit) \<times> 's"
  io_rename :: "pin_path \<Rightarrow> pin_path \<Rightarrow> 's \<Rightarrow> (pin_error + unit) \<times> 's"
  io_remove_file :: "pin_path \<Rightarrow> 's \<Rightarrow> (pin_error + unit) \<times> 's"
  io_remove_dir_all :: "pin_path \<Rightarrow> 's \<Rightarrow> (pin_error + unit) \<times> 's"
  io_read_dir_names :: "'s \<Rightarrow> pin_path \<Rightarrow> pin_error + string list"
  io_map_info :: "'s \<Rightarrow> pin_path \<Rightarrow> pin_error + ObservedMapInfo"
  io_read_legacy_deny_entries_at :: "'s \<Rightarrow> pin_path \<Rightarrow> pin_path \<Rightarrow> pin_error + PathDenyEntry list"
  io_read_deny_count :: "'s \<Rightarrow> pin_path \<Rightarrow> pin_error + u32"

subsection \<open>Sequencing\<close>

text \<open>The \<open>?\<close> operator on calls that change the state, and the loops that stop at an error.\<close>

definition io_then :: "('e + 'a) \<times> 's \<Rightarrow> ('a \<Rightarrow> 's \<Rightarrow> ('e + 'b) \<times> 's) \<Rightarrow> ('e + 'b) \<times> 's" where
  "io_then m f = (case m of (Inl e, s) \<Rightarrow> (Inl e, s) | (Inr x, s) \<Rightarrow> f x s)"

fun io_for :: "('a \<Rightarrow> 's \<Rightarrow> ('e + unit) \<times> 's) \<Rightarrow> 'a list \<Rightarrow> 's \<Rightarrow> ('e + unit) \<times> 's" where
  "io_for f [] s = (Inr (), s)"
| "io_for f (x # xs) s = io_then (f x s) (\<lambda>_. io_for f xs)"

lemma io_then_simps [simp]: "io_then (Inl e, s) f = (Inl e, s)" "io_then (Inr x, s) f = f x s"
  by (simp_all add: io_then_def)

text \<open>
  A call establishes \<open>Q\<close> when it returns a value and \<open>R\<close> when it returns an error, the state
  in which an interrupted agent leaves the tree.
\<close>

definition ends_in :: "('e + 'a) \<times> 's \<Rightarrow> ('a \<Rightarrow> 's \<Rightarrow> bool) \<Rightarrow> ('s \<Rightarrow> bool) \<Rightarrow> bool" where
  "ends_in m Q R \<longleftrightarrow> (case m of (Inl e, s) \<Rightarrow> R s | (Inr x, s) \<Rightarrow> Q x s)"

lemma ends_in_simps [simp]: "ends_in (Inl e, s) Q R \<longleftrightarrow> R s" "ends_in (Inr x, s) Q R \<longleftrightarrow> Q x s"
  by (simp_all add: ends_in_def)

lemma ends_in_then:
  assumes "ends_in m Q' R" "\<And>x s. Q' x s \<Longrightarrow> ends_in (f x s) Q R"
  shows "ends_in (io_then m f) Q R"
proof -
  obtain r s where m: "m = (r, s)" by force
  show ?thesis using assms by (cases r) (simp_all add: m)
qed

lemma ends_in_mono:
  assumes "ends_in m Q R" "\<And>x s. Q x s \<Longrightarrow> Q' x s" "\<And>s. R s \<Longrightarrow> R' s"
  shows "ends_in m Q' R'"
  using assms by (auto simp: ends_in_def split: prod.splits sum.splits)

lemma ends_in_for:
  assumes "I s" "\<And>x s. x \<in> set xs \<Longrightarrow> I s \<Longrightarrow> ends_in (f x s) (\<lambda>_. I) R"
  shows "ends_in (io_for f xs s) (\<lambda>_. I) R"
  using assms
proof (induction xs arbitrary: s)
  case (Cons x xs)
  show ?case
    unfolding io_for.simps
  proof (rule ends_in_then)
    show "ends_in (f x s) (\<lambda>_. I) R" using Cons.prems by simp
  next
    fix u s' assume "I s'"
    then show "ends_in (io_for f xs s') (\<lambda>_. I) R"
      using Cons.prems(2) by (intro Cons.IH) simp_all
  qed
qed simp

subsection \<open>The instance on the tree\<close>

definition fs_call ::
  "faults \<Rightarrow> (BpfFs \<Rightarrow> pin_error + BpfFs) \<Rightarrow> BpfFs \<Rightarrow> (pin_error + unit) \<times> BpfFs" where
  "fs_call flt f s =
     (let s' = s\<lparr>bf_tick := Suc (bf_tick s)\<rparr> in
      case flt (bf_tick s) of
        Some errno \<Rightarrow> (Inl (IoFault errno), s')
      | None \<Rightarrow> (case f s' of Inl e \<Rightarrow> (Inl e, s') | Inr s'' \<Rightarrow> (Inr (), s'')))"

definition set_node :: "pin_path \<Rightarrow> PinNode \<Rightarrow> BpfFs \<Rightarrow> BpfFs" where
  "set_node p n s = s\<lparr>bf_nodes := AList.update p n (bf_nodes s)\<rparr>"

definition drop_node :: "pin_path \<Rightarrow> BpfFs \<Rightarrow> BpfFs" where
  "drop_node p s = s\<lparr>bf_nodes := AList.delete p (bf_nodes s)\<rparr>"

definition is_dir_node :: "BpfFs \<Rightarrow> pin_path \<Rightarrow> bool" where
  "is_dir_node s p \<longleftrightarrow> pin_node s p = Some DirNode"

text \<open>The directories \<open>create_dir_all\<close> finds or makes, outermost first.\<close>

definition dir_chain :: "pin_path \<Rightarrow> pin_path list" where
  "dir_chain p = map (\<lambda>i. take i p) [1..<Suc (length p)]"

definition make_dirs :: "pin_path \<Rightarrow> BpfFs \<Rightarrow> pin_error + BpfFs" where
  "make_dirs p s =
     (case find (\<lambda>q. pin_node s q \<noteq> None \<and> \<not> is_dir_node s q) (dir_chain p) of
        Some q \<Rightarrow> Inl (NotADirectory q)
      | None \<Rightarrow> Inr (fold (\<lambda>q s. if pin_node s q = None then set_node q DirNode s else s) (dir_chain p) s))"

definition move_node :: "pin_path \<Rightarrow> pin_path \<Rightarrow> BpfFs \<Rightarrow> pin_error + BpfFs" where
  "move_node a b s =
     (case pin_node s a of
        None \<Rightarrow> Inl (NoSuchPin a)
      | Some n \<Rightarrow>
          if n = DirNode then Inl (NotAMap a)
          else if \<not> is_dir_node s (butlast b) then Inl (NotADirectory (butlast b))
          else if is_dir_node s b then Inl (NotAMap b)
          else Inr (set_node b n (drop_node a s)))"

definition unlink_node :: "pin_path \<Rightarrow> BpfFs \<Rightarrow> pin_error + BpfFs" where
  "unlink_node p s = (if pin_node s p = None then Inl (NoSuchPin p) else Inr (drop_node p s))"

definition remove_pin :: "pin_path \<Rightarrow> BpfFs \<Rightarrow> pin_error + BpfFs" where
  "remove_pin p s = (if is_dir_node s p then Inl (NotAMap p) else unlink_node p s)"

text \<open>What lies under a directory, innermost first, the directory itself last.\<close>

definition nodes_under :: "pin_path \<Rightarrow> BpfFs \<Rightarrow> pin_path list" where
  "nodes_under p s = rev (sort_key length (filter (prefix p) (remdups (map fst (bf_nodes s)))))"

definition remove_tree :: "faults \<Rightarrow> pin_path \<Rightarrow> BpfFs \<Rightarrow> (pin_error + unit) \<times> BpfFs" where
  "remove_tree flt p s =
     (if \<not> is_dir_node s p then (Inl (NotADirectory p), s)
      else io_for (\<lambda>q. fs_call flt (unlink_node q)) (nodes_under p s) s)"

definition child_name :: "pin_path \<Rightarrow> pin_path \<Rightarrow> string option" where
  "child_name d p = (if p \<noteq> [] \<and> butlast p = d then Some (last p) else None)"

definition dir_names :: "BpfFs \<Rightarrow> pin_path \<Rightarrow> pin_error + string list" where
  "dir_names s p =
     (if \<not> is_dir_node s p then Inr []
      else Inr (sort (filter (\<lambda>n. utf8_valid (str_bytes n))
             (List.map_filter (child_name p) (remdups (map fst (bf_nodes s)))))))"

type_synonym pin_tree = "pin_path \<Rightarrow> PinNode option"
type_synonym map_store = "nat \<Rightarrow> MapObject option"

definition pinned_map :: "pin_tree \<Rightarrow> map_store \<Rightarrow> pin_path \<Rightarrow> pin_error + MapObject" where
  "pinned_map t objs p =
     (case t p of
        Some (MapPin i) \<Rightarrow> ok_or (objs i) (NoSuchPin p)
      | Some _ \<Rightarrow> Inl (NotAMap p)
      | None \<Rightarrow> Inl (NoSuchPin p))"

definition map_info :: "pin_tree \<Rightarrow> map_store \<Rightarrow> pin_path \<Rightarrow> pin_error + ObservedMapInfo" where
  "map_info t objs p = and_then (pinned_map t objs p) (\<lambda>m. Inr (mo_info m))"

text \<open>Opening a pinned map as a typed array checks the type and the sizes of the map.\<close>

definition typed_array :: "u32 \<Rightarrow> MapObject \<Rightarrow> bool" where
  "typed_array w m \<longleftrightarrow>
     map_type (mo_info m) = BPF_MAP_TYPE_ARRAY \<and> key_size (mo_info m) = 4 \<and>
     value_size (mo_info m) = w"

definition legacy_slots :: "pin_path \<Rightarrow> MapObject \<Rightarrow> pin_error + LegacyPathDenyEntry list" where
  "legacy_slots p m =
     (case mo_body m of
        LegacyEntries xs \<Rightarrow>
          if typed_array (of_nat PATH_DENY_ENTRY_SIZE_LEGACY) m then Inr xs else Inl (NotAnArray p)
      | _ \<Rightarrow> Inl (NotAnArray p))"

definition counter_slots :: "pin_path \<Rightarrow> MapObject \<Rightarrow> pin_error + u32 list" where
  "counter_slots p m =
     (case mo_body m of
        Counters xs \<Rightarrow> if typed_array 4 m then Inr xs else Inl (NotAnArray p)
      | _ \<Rightarrow> Inl (NotAnArray p))"

definition read_deny_count :: "pin_tree \<Rightarrow> map_store \<Rightarrow> pin_path \<Rightarrow> pin_error + u32" where
  "read_deny_count t objs p =
     and_then (pinned_map t objs p) (\<lambda>m.
     and_then (counter_slots p m) (\<lambda>xs.
     ok_or (array_get xs 0) (NoElement p)))"

definition widen_slots :: "pin_path \<Rightarrow> LegacyPathDenyEntry list \<Rightarrow> nat \<Rightarrow> pin_error + PathDenyEntry list" where
  "widen_slots p xs n =
     try_map (\<lambda>i. and_then (ok_or (array_get xs i) (NoElement p)) (\<lambda>l. ok_or (widen l) (BadLegacyLen i))) [0..<n]"

definition read_legacy_deny_entries_at ::
  "pin_tree \<Rightarrow> map_store \<Rightarrow> pin_path \<Rightarrow> pin_path \<Rightarrow> pin_error + PathDenyEntry list" where
  "read_legacy_deny_entries_at t objs list_path count_path =
     and_then (pinned_map t objs list_path) (\<lambda>lm.
     and_then (pinned_map t objs count_path) (\<lambda>cm.
     and_then (legacy_slots list_path lm) (\<lambda>xs.
     and_then (counter_slots count_path cm) (\<lambda>cs.
     and_then (ok_or (array_get cs 0) (NoElement count_path)) (\<lambda>active.
     if active = 0 then Inl EmptyLegacyCount
     else and_then (widen_slots list_path xs (min (unat active) PATH_DENY_MAX_ENTRIES)) (\<lambda>out.
     if out = [] then Inl EmptyLegacyCount else Inr out))))))"

definition RealPinAbiIo :: "faults \<Rightarrow> BpfFs PinAbiIo" where
  "RealPinAbiIo flt =
     \<lparr>io_exists = (\<lambda>s p. pin_node s p \<noteq> None),
      io_is_dir = is_dir_node,
      io_create_dir_all = (\<lambda>p. fs_call flt (make_dirs p)),
      io_rename = (\<lambda>a b. fs_call flt (move_node a b)),
      io_remove_file = (\<lambda>p. fs_call flt (remove_pin p)),
      io_remove_dir_all = remove_tree flt,
      io_read_dir_names = dir_names,
      io_map_info = (\<lambda>s. map_info (pin_node s) (bf_objs s)),
      io_read_legacy_deny_entries_at = (\<lambda>s. read_legacy_deny_entries_at (pin_node s) (bf_objs s)),
      io_read_deny_count = (\<lambda>s. read_deny_count (pin_node s) (bf_objs s))\<rparr>"

subsection \<open>What the trait promises\<close>

definition with_dirs :: "pin_path \<Rightarrow> pin_tree \<Rightarrow> pin_tree" where
  "with_dirs p t = (\<lambda>q. if q \<noteq> [] \<and> prefix q p \<and> t q = None then Some DirNode else t q)"

definition pruned :: "pin_path \<Rightarrow> pin_tree \<Rightarrow> pin_tree \<Rightarrow> bool" where
  "pruned p t t' \<longleftrightarrow> (\<forall>q. t' q = t q \<or> prefix p q \<and> t' q = None)"

definition without_tree :: "pin_path \<Rightarrow> pin_tree \<Rightarrow> pin_tree" where
  "without_tree p t = (\<lambda>q. if prefix p q then None else t q)"

text \<open>
  A call either has its effect on the tree or leaves it alone, no call changes a map, and
  \<open>live\<close> says that no call fails other than for the state of the tree.
\<close>

locale pin_io =
  fixes io :: "'s PinAbiIo"
    and tree :: "'s \<Rightarrow> pin_tree"
    and objs :: "'s \<Rightarrow> map_store"
    and live :: bool
  assumes exists_iff [simp]: "io_exists io s p \<longleftrightarrow> tree s p \<noteq> None"
    and is_dir_iff [simp]: "io_is_dir io s p \<longleftrightarrow> tree s p = Some DirNode"
    and create_dir: "(\<And>q. q \<noteq> [] \<Longrightarrow> prefix q p \<Longrightarrow> tree s q = None \<or> tree s q = Some DirNode) \<Longrightarrow>
          ends_in (io_create_dir_all io p s)
            (\<lambda>_ s'. tree s' = with_dirs p (tree s) \<and> objs s' = objs s)
            (\<lambda>s'. \<not> live \<and> tree s' = tree s \<and> objs s' = objs s)"
    and rename: "tree s a = Some n \<Longrightarrow> n \<noteq> DirNode \<Longrightarrow> tree s (butlast b) = Some DirNode \<Longrightarrow>
          tree s b \<noteq> Some DirNode \<Longrightarrow> a \<noteq> b \<Longrightarrow>
          ends_in (io_rename io a b s)
            (\<lambda>_ s'. tree s' = (tree s)(a := None, b := Some n) \<and> objs s' = objs s)
            (\<lambda>s'. \<not> live \<and> tree s' = tree s \<and> objs s' = objs s)"
    and remove_file: "tree s p = Some n \<Longrightarrow> n \<noteq> DirNode \<Longrightarrow>
          ends_in (io_remove_file io p s)
            (\<lambda>_ s'. tree s' = (tree s)(p := None) \<and> objs s' = objs s)
            (\<lambda>s'. \<not> live \<and> tree s' = tree s \<and> objs s' = objs s)"
    and remove_dir_all: "tree s p = Some DirNode \<Longrightarrow>
          ends_in (io_remove_dir_all io p s)
            (\<lambda>_ s'. tree s' = without_tree p (tree s) \<and> objs s' = objs s)
            (\<lambda>s'. \<not> live \<and> pruned p (tree s) (tree s') \<and> objs s' = objs s)"
    and remove_no_dir: "tree s p \<noteq> Some DirNode \<Longrightarrow> \<exists>e. io_remove_dir_all io p s = (Inl e, s)"
    and read_dir: "tree s p = Some DirNode \<Longrightarrow>
          \<exists>ns. io_read_dir_names io s p = Inr ns \<and> distinct ns \<and>
               set ns = {n. tree s (join p n) \<noteq> None \<and> utf8_valid (str_bytes n)}"
    and create_foot: "\<not> prefix q p \<Longrightarrow> tree (snd (io_create_dir_all io p s)) q = tree s q"
    and rename_foot: "q \<noteq> a \<Longrightarrow> q \<noteq> b \<Longrightarrow> tree (snd (io_rename io a b s)) q = tree s q"
    and remove_foot: "q \<noteq> p \<Longrightarrow> tree (snd (io_remove_file io p s)) q = tree s q"
    and remove_dir_foot: "\<not> prefix p q \<Longrightarrow> tree (snd (io_remove_dir_all io p s)) q = tree s q"
    and map_info_eq [simp]: "io_map_info io s p = map_info (tree s) (objs s) p"
    and read_legacy_eq [simp]:
          "io_read_legacy_deny_entries_at io s p q = read_legacy_deny_entries_at (tree s) (objs s) p q"
    and read_count_eq [simp]: "io_read_deny_count io s p = read_deny_count (tree s) (objs s) p"

subsection \<open>The tree keeps the promises\<close>

lemma pin_node_set [simp]: "pin_node (set_node p n s) = (pin_node s)(p \<mapsto> n)"
  by (simp add: set_node_def update_conv')

lemma pin_node_drop [simp]: "pin_node (drop_node p s) = (pin_node s)(p := None)"
  by (simp add: drop_node_def delete_conv')

lemma objs_set_drop [simp]:
  "bf_objs (set_node p n s) = bf_objs s" "bf_objs (drop_node p s) = bf_objs s"
  by (simp_all add: set_node_def drop_node_def)

lemma fs_call_ends:
  assumes "\<And>t. \<exists>s''. f (s\<lparr>bf_tick := t\<rparr>) = Inr s'' \<and> Q s''"
  shows "ends_in (fs_call flt f s) (\<lambda>_. Q)
           (\<lambda>s'. flt \<noteq> (\<lambda>_. None) \<and> pin_node s' = pin_node s \<and> bf_objs s' = bf_objs s)"
proof (cases "flt (bf_tick s)")
  case None
  with assms [of "Suc (bf_tick s)"] show ?thesis by (auto simp: fs_call_def)
next
  case (Some a)
  then show ?thesis by (auto simp: fs_call_def)
qed

lemma set_dir_chain: "q \<in> set (dir_chain p) \<longleftrightarrow> q \<noteq> [] \<and> prefix q p"
proof
  assume "q \<in> set (dir_chain p)"
  then show "q \<noteq> [] \<and> prefix q p"
    by (cases p) (auto simp: dir_chain_def take_is_prefix)
next
  assume q: "q \<noteq> [] \<and> prefix q p"
  then have "q = take (length q) p" "length q \<le> length p"
    by (auto simp: prefix_def)
  with q show "q \<in> set (dir_chain p)"
    by (auto simp: dir_chain_def image_iff intro!: bexI [of _ "length q"] simp: Suc_le_eq)
qed

lemma fold_set_dirs:
  "pin_node (fold (\<lambda>q s. if pin_node s q = None then set_node q DirNode s else s) qs s) =
     (\<lambda>q. if q \<in> set qs \<and> pin_node s q = None then Some DirNode else pin_node s q)"
  "bf_objs (fold (\<lambda>q s. if pin_node s q = None then set_node q DirNode s else s) qs s) = bf_objs s"
  by (induction qs arbitrary: s) (auto simp: fun_eq_iff)

lemma make_dirs_ok:
  assumes "\<And>q. q \<noteq> [] \<Longrightarrow> prefix q p \<Longrightarrow> pin_node s q = None \<or> pin_node s q = Some DirNode"
  shows "\<exists>s'. make_dirs p s = Inr s' \<and> pin_node s' = with_dirs p (pin_node s) \<and> bf_objs s' = bf_objs s"
proof -
  have "find (\<lambda>q. pin_node s q \<noteq> None \<and> \<not> is_dir_node s q) (dir_chain p) = None"
    using assms by (fastforce simp: find_None_iff set_dir_chain is_dir_node_def)
  then show ?thesis
    by (simp add: make_dirs_def fold_set_dirs with_dirs_def set_dir_chain del: not_None_eq)
qed

lemma nodes_under_set: "q \<in> set (nodes_under p s) \<longleftrightarrow> prefix p q \<and> pin_node s q \<noteq> None"
  by (auto simp: nodes_under_def map_of_eq_None_iff)

lemma distinct_nodes_under: "distinct (nodes_under p s)"
  by (simp add: nodes_under_def)

lemma unlink_all:
  assumes "distinct qs" "\<forall>q \<in> set qs. pin_node s q \<noteq> None"
  shows "ends_in (io_for (\<lambda>q. fs_call flt (unlink_node q)) qs s)
           (\<lambda>_ s'. pin_node s' = (\<lambda>q. if q \<in> set qs then None else pin_node s q) \<and> bf_objs s' = bf_objs s)
           (\<lambda>s'. flt \<noteq> (\<lambda>_. None) \<and> (\<forall>q. pin_node s' q = pin_node s q \<or> q \<in> set qs \<and> pin_node s' q = None) \<and>
                 bf_objs s' = bf_objs s)"
  using assms
proof (induction qs arbitrary: s)
  case (Cons x qs)
  have call: "ends_in (fs_call flt (unlink_node x) s)
      (\<lambda>_ s'. pin_node s' = (pin_node s)(x := None) \<and> bf_objs s' = bf_objs s)
      (\<lambda>s'. flt \<noteq> (\<lambda>_. None) \<and> pin_node s' = pin_node s \<and> bf_objs s' = bf_objs s)"
    by (rule fs_call_ends) (use Cons.prems in \<open>auto simp: unlink_node_def\<close>)
  show ?case
    unfolding io_for.simps
  proof (rule ends_in_then [OF ends_in_mono [OF call]])
    fix u s'
    assume s': "pin_node s' = (pin_node s)(x := None) \<and> bf_objs s' = bf_objs s"
    show "ends_in (io_for (\<lambda>q. fs_call flt (unlink_node q)) qs s')
        (\<lambda>_ s'. pin_node s' = (\<lambda>q. if q \<in> set (x # qs) then None else pin_node s q) \<and> bf_objs s' = bf_objs s)
        (\<lambda>s'. flt \<noteq> (\<lambda>_. None) \<and>
          (\<forall>q. pin_node s' q = pin_node s q \<or> q \<in> set (x # qs) \<and> pin_node s' q = None) \<and> bf_objs s' = bf_objs s)"
    proof (rule ends_in_mono [OF Cons.IH [of s']])
      show "distinct qs" using Cons.prems by simp
      show "\<forall>q \<in> set qs. pin_node s' q \<noteq> None" using Cons.prems s' by auto
    next
      fix u s2
      assume "pin_node s2 = (\<lambda>q. if q \<in> set qs then None else pin_node s' q) \<and> bf_objs s2 = bf_objs s'"
      then show "pin_node s2 = (\<lambda>q. if q \<in> set (x # qs) then None else pin_node s q) \<and> bf_objs s2 = bf_objs s"
        using s' by (auto simp: fun_eq_iff)
    next
      fix s2
      assume h: "flt \<noteq> (\<lambda>_. None) \<and>
        (\<forall>q. pin_node s2 q = pin_node s' q \<or> q \<in> set qs \<and> pin_node s2 q = None) \<and> bf_objs s2 = bf_objs s'"
      have "pin_node s2 q = pin_node s q \<or> q \<in> set (x # qs) \<and> pin_node s2 q = None" for q
        using h s' by (cases "q = x") (simp_all del: not_None_eq, metis+)
      then show "flt \<noteq> (\<lambda>_. None) \<and>
          (\<forall>q. pin_node s2 q = pin_node s q \<or> q \<in> set (x # qs) \<and> pin_node s2 q = None) \<and> bf_objs s2 = bf_objs s"
        using h s' by (intro conjI allI) simp_all
    qed
  qed auto
qed (simp add: fun_eq_iff)

lemma remove_tree_ends:
  assumes "is_dir_node s p"
  shows "ends_in (remove_tree flt p s)
           (\<lambda>_ s'. pin_node s' = without_tree p (pin_node s) \<and> bf_objs s' = bf_objs s)
           (\<lambda>s'. flt \<noteq> (\<lambda>_. None) \<and> pruned p (pin_node s) (pin_node s') \<and> bf_objs s' = bf_objs s)"
proof -
  have "\<forall>q \<in> set (nodes_under p s). pin_node s q \<noteq> None"
    by (simp add: nodes_under_set)
  note u = unlink_all [OF distinct_nodes_under this, of flt]
  show ?thesis
    using assms unfolding remove_tree_def
    by (simp del: not_None_eq) (rule ends_in_mono [OF u],
        auto simp: nodes_under_set without_tree_def pruned_def fun_eq_iff)
qed

lemma child_name_Some: "child_name p q = Some n \<longleftrightarrow> q = join p n"
  by (cases q rule: rev_cases) (simp_all add: child_name_def)

lemma set_map_filter_iff: "y \<in> set (List.map_filter f xs) \<longleftrightarrow> (\<exists>x \<in> set xs. f x = Some y)"
  by (induction xs) (auto simp: map_filter_simps split: option.splits)

lemma set_children: "set (List.map_filter (child_name p) qs) = {n. join p n \<in> set qs}"
  by (auto simp: set_map_filter_iff child_name_Some)

lemma distinct_children: "distinct qs \<Longrightarrow> distinct (List.map_filter (child_name p) qs)"
  by (induction qs) (auto simp: map_filter_simps set_children child_name_Some split: option.splits)

lemma dir_names_ok:
  assumes "is_dir_node s p"
  shows "\<exists>ns. dir_names s p = Inr ns \<and> distinct ns \<and>
              set ns = {n. pin_node s (join p n) \<noteq> None \<and> utf8_valid (str_bytes n)}"
  using assms by (auto simp: dir_names_def set_children distinct_children map_of_eq_None_iff simp del: not_None_eq)

lemma RealPinAbiIo_simps:
  "io_exists (RealPinAbiIo flt) s p \<longleftrightarrow> pin_node s p \<noteq> None"
  "io_is_dir (RealPinAbiIo flt) s p \<longleftrightarrow> pin_node s p = Some DirNode"
  "io_create_dir_all (RealPinAbiIo flt) p = fs_call flt (make_dirs p)"
  "io_rename (RealPinAbiIo flt) p q = fs_call flt (move_node p q)"
  "io_remove_file (RealPinAbiIo flt) p = fs_call flt (remove_pin p)"
  "io_remove_dir_all (RealPinAbiIo flt) = remove_tree flt"
  "io_read_dir_names (RealPinAbiIo flt) = dir_names"
  "io_map_info (RealPinAbiIo flt) s p = map_info (pin_node s) (bf_objs s) p"
  "io_read_legacy_deny_entries_at (RealPinAbiIo flt) s p q =
     read_legacy_deny_entries_at (pin_node s) (bf_objs s) p q"
  "io_read_deny_count (RealPinAbiIo flt) s p = read_deny_count (pin_node s) (bf_objs s) p"
  by (simp_all add: RealPinAbiIo_def is_dir_node_def)

lemma pin_node_tick [simp]: "pin_node (s\<lparr>bf_tick := t\<rparr>) = pin_node s" for s :: BpfFs
  by simp

lemma make_dirs_ends:
  assumes "\<And>q. q \<noteq> [] \<Longrightarrow> prefix q p \<Longrightarrow> pin_node s q = None \<or> pin_node s q = Some DirNode"
  shows "ends_in (fs_call flt (make_dirs p) s)
           (\<lambda>_ s'. pin_node s' = with_dirs p (pin_node s) \<and> bf_objs s' = bf_objs s)
           (\<lambda>s'. flt \<noteq> (\<lambda>_. None) \<and> pin_node s' = pin_node s \<and> bf_objs s' = bf_objs s)"
proof (rule fs_call_ends)
  fix t
  have "\<exists>s'. make_dirs p (s\<lparr>bf_tick := t\<rparr>) = Inr s' \<and>
      pin_node s' = with_dirs p (pin_node (s\<lparr>bf_tick := t\<rparr>)) \<and> bf_objs s' = bf_objs (s\<lparr>bf_tick := t\<rparr>)"
    by (rule make_dirs_ok) (subst (1 2) pin_node_tick, rule assms)
  then show "\<exists>s'. make_dirs p (s\<lparr>bf_tick := t\<rparr>) = Inr s' \<and>
      pin_node s' = with_dirs p (pin_node s) \<and> bf_objs s' = bf_objs s"
    by simp
qed

lemma move_node_ends:
  assumes "pin_node s a = Some n" "n \<noteq> DirNode" "pin_node s (butlast b) = Some DirNode"
    "pin_node s b \<noteq> Some DirNode"
  shows "ends_in (fs_call flt (move_node a b) s)
           (\<lambda>_ s'. pin_node s' = (pin_node s)(a := None, b \<mapsto> n) \<and> bf_objs s' = bf_objs s)
           (\<lambda>s'. flt \<noteq> (\<lambda>_. None) \<and> pin_node s' = pin_node s \<and> bf_objs s' = bf_objs s)"
  by (rule fs_call_ends) (use assms in \<open>simp add: move_node_def is_dir_node_def\<close>)

lemma remove_pin_ends:
  assumes "pin_node s p = Some n" "n \<noteq> DirNode"
  shows "ends_in (fs_call flt (remove_pin p) s)
           (\<lambda>_ s'. pin_node s' = (pin_node s)(p := None) \<and> bf_objs s' = bf_objs s)
           (\<lambda>s'. flt \<noteq> (\<lambda>_. None) \<and> pin_node s' = pin_node s \<and> bf_objs s' = bf_objs s)"
  by (rule fs_call_ends) (use assms in \<open>simp add: remove_pin_def unlink_node_def is_dir_node_def\<close>)

lemma remove_tree_no_dir: "pin_node s p \<noteq> Some DirNode \<Longrightarrow> \<exists>e. remove_tree flt p s = (Inl e, s)"
  by (simp add: remove_tree_def is_dir_node_def)

text \<open>What a call cannot reach, whatever the tree looks like.\<close>

lemma fs_call_foot:
  assumes "\<And>t s'. f (s\<lparr>bf_tick := t\<rparr>) = Inr s' \<Longrightarrow> pin_node s' q = pin_node s q"
  shows "pin_node (snd (fs_call flt f s)) q = pin_node s q"
  using assms by (auto simp: fs_call_def Let_def split: option.splits sum.splits)

lemma make_dirs_foot: "\<not> prefix q p \<Longrightarrow> make_dirs p s = Inr s' \<Longrightarrow> pin_node s' q = pin_node s q"
  by (auto simp: make_dirs_def fold_set_dirs set_dir_chain split: option.splits)

lemma move_node_foot: "q \<noteq> a \<Longrightarrow> q \<noteq> b \<Longrightarrow> move_node a b s = Inr s' \<Longrightarrow> pin_node s' q = pin_node s q"
  by (auto simp: move_node_def split: option.splits if_splits)

lemma unlink_foot: "q \<noteq> p \<Longrightarrow> unlink_node p s = Inr s' \<Longrightarrow> pin_node s' q = pin_node s q"
  by (auto simp: unlink_node_def split: if_splits)

lemma remove_pin_foot: "q \<noteq> p \<Longrightarrow> remove_pin p s = Inr s' \<Longrightarrow> pin_node s' q = pin_node s q"
  by (auto simp: remove_pin_def unlink_foot split: if_splits)

lemma unlink_all_foot:
  "q \<notin> set ps \<Longrightarrow> pin_node (snd (io_for (\<lambda>p. fs_call flt (unlink_node p)) ps s)) q = pin_node s q"
proof (induction ps arbitrary: s)
  case (Cons p ps)
  obtain r s1 where c: "fs_call flt (unlink_node p) s = (r, s1)" by force
  have "pin_node s1 q = pin_node s q"
    using fs_call_foot [of "unlink_node p" s q flt] unlink_foot [of q p] Cons.prems c by fastforce
  with Cons c show ?case by (cases r) simp_all
qed simp

lemma remove_tree_foot: "\<not> prefix p q \<Longrightarrow> pin_node (snd (remove_tree flt p s)) q = pin_node s q"
  by (auto simp: remove_tree_def nodes_under_set unlink_all_foot)

lemma call_foot:
  "\<not> prefix q p \<Longrightarrow> pin_node (snd (fs_call flt (make_dirs p) s)) q = pin_node s q"
  "q \<noteq> a \<Longrightarrow> q \<noteq> b \<Longrightarrow> pin_node (snd (fs_call flt (move_node a b) s)) q = pin_node s q"
  "q \<noteq> p \<Longrightarrow> pin_node (snd (fs_call flt (remove_pin p) s)) q = pin_node s q"
  by (auto intro!: fs_call_foot dest: make_dirs_foot move_node_foot remove_pin_foot)

interpretation bpffs: pin_io "RealPinAbiIo flt" pin_node bf_objs "flt = (\<lambda>_. None)"
  by unfold_locales
    (unfold RealPinAbiIo_simps, simp_all only: make_dirs_ends move_node_ends remove_pin_ends
       dir_names_ok [unfolded is_dir_node_def] remove_tree_ends [unfolded is_dir_node_def]
       remove_tree_no_dir call_foot remove_tree_foot simp_thms)

end
