(* ===== verification/Pin_Abi.thy ===== *)
theory Pin_Abi
  imports Pin_Io
begin

section \<open>Pinned map layouts and their migration: \<open>apps/agent-ebpf-sensor/src/pin_abi.rs\<close>\<close>

text \<open>
  The functions that run before the enforcement object is loaded: they classify the pins
  left by an earlier agent, move a deny list of the old layout aside and read it, finish a
  migration that was interrupted, and clear the staging directories at the end. Each is
  written over any \<open>PinAbiIo\<close>, as the source writes it.
\<close>

definition LEGACY_ABI_DIR_PREFIX :: string where "LEGACY_ABI_DIR_PREFIX = ''legacy_abi_''"
definition PROC_ABI_DIR_PREFIX :: string where "PROC_ABI_DIR_PREFIX = ''proc_abi_''"

definition matches_expected :: "ObservedMapInfo \<Rightarrow> PinnedMapAbi \<Rightarrow> bool" where
  "matches_expected i e \<longleftrightarrow>
     map_type i = pma_map_type e \<and> key_size i = pma_key_size e \<and>
     value_size i = pma_value_size e \<and> max_entries i = pma_max_entries e"

definition is_legacy_path_deny_list :: "ObservedMapInfo \<Rightarrow> bool" where
  "is_legacy_path_deny_list i \<longleftrightarrow>
     map_type i = BPF_MAP_TYPE_ARRAY \<and> key_size i = 4 \<and>
     value_size i = of_nat PATH_DENY_ENTRY_SIZE_LEGACY \<and> max_entries i = of_nat PATH_DENY_MAX_ENTRIES"

datatype PinAbiState =
    PinsCold
  | PinsCompatible
  | LegacyMigratable
  | MigrationInProgress pin_path
  | PinsIncompatible string pin_detail

datatype DenySeedOverride =
    SeedBootstrap
  | SeedResumePinned
  | MigratedEntries "PathDenyEntry list" bool

datatype MigrationResult =
    ResultCompatible | Migrated | ResumedMigration | BootstrapFallback | ProcessMapRecreated

subsection \<open>Staging directories\<close>

definition legacy_abi_numeric_suffix :: "string \<Rightarrow> nat option" where
  "legacy_abi_numeric_suffix name =
     (case strip_prefix name LEGACY_ABI_DIR_PREFIX of
        None \<Rightarrow> None
      | Some rest \<Rightarrow>
          if rest = [] \<or> \<not> list_all is_ascii_digit rest then None else parse_uint 32 rest)"

definition list_legacy_abi_dirs :: "'s PinAbiIo \<Rightarrow> pin_path \<Rightarrow> 's \<Rightarrow> pin_error + pin_path list" where
  "list_legacy_abi_dirs io pin_root s =
     and_then (io_read_dir_names io s pin_root) (\<lambda>names.
       Inr (map snd (sort_key fst (List.map_filter
         (\<lambda>name. case legacy_abi_numeric_suffix name of
             None \<Rightarrow> None
           | Some n \<Rightarrow> if io_is_dir io s (join pin_root name) then Some (n, join pin_root name) else None)
         names))))"

definition list_proc_abi_dirs :: "'s PinAbiIo \<Rightarrow> pin_path \<Rightarrow> 's \<Rightarrow> pin_error + pin_path list" where
  "list_proc_abi_dirs io pin_root s =
     and_then (io_read_dir_names io s pin_root) (\<lambda>names.
       Inr (sort (filter (io_is_dir io s)
         (map (join pin_root)
           (filter (\<lambda>name. starts_with name PROC_ABI_DIR_PREFIX \<and> CHR ''.'' \<notin> set name) names)))))"

definition dir_score :: "'s PinAbiIo \<Rightarrow> 's \<Rightarrow> pin_path \<Rightarrow> nat \<Rightarrow> nat \<times> nat \<times> nat" where
  "dir_score io s dir n =
     (of_bool (io_exists io s (join dir PATH_DENY_LIST_MAP)),
      of_bool (io_exists io s (join dir PATH_DENY_COUNT_MAP)), n)"

definition better_dir ::
  "'s PinAbiIo \<Rightarrow> 's \<Rightarrow> pin_path \<Rightarrow> (nat \<times> pin_path) option \<Rightarrow> (nat \<times> pin_path) option" where
  "better_dir io s dir best =
     (case legacy_abi_numeric_suffix (last dir) of
        None \<Rightarrow> best
      | Some n \<Rightarrow>
          if \<not> io_exists io s (join dir PATH_DENY_LIST_MAP) \<and> \<not> io_exists io s (join dir PATH_DENY_COUNT_MAP)
          then best
          else (case best of
                  None \<Rightarrow> Some (n, dir)
                | Some (bn, bdir) \<Rightarrow>
                    if dir_score io s bdir bn \<le> dir_score io s dir n then Some (n, dir) else best))"

definition select_deny_legacy_dir :: "'s PinAbiIo \<Rightarrow> pin_path \<Rightarrow> 's \<Rightarrow> pin_error + pin_path option" where
  "select_deny_legacy_dir io pin_root s =
     and_then (list_legacy_abi_dirs io pin_root s) (\<lambda>dirs.
       Inr (map_option snd (fold (better_dir io s) dirs None)))"

record DenyPinLocations =
  loc_list :: pin_path
  loc_count :: pin_path

definition locate_pin :: "'s PinAbiIo \<Rightarrow> 's \<Rightarrow> pin_path \<Rightarrow> pin_path \<Rightarrow> string \<Rightarrow> pin_error + pin_path" where
  "locate_pin io s pin_root legacy_dir name =
     (if io_exists io s (join legacy_dir name) then Inr (join legacy_dir name)
      else if io_exists io s (join pin_root name) then Inr (join pin_root name)
      else Inl (PinMissing name))"

definition resolve_deny_pin_locations ::
  "'s PinAbiIo \<Rightarrow> pin_path \<Rightarrow> pin_path \<Rightarrow> 's \<Rightarrow> pin_error + DenyPinLocations" where
  "resolve_deny_pin_locations io pin_root legacy_dir s =
     and_then (locate_pin io s pin_root legacy_dir PATH_DENY_LIST_MAP) (\<lambda>l.
     and_then (locate_pin io s pin_root legacy_dir PATH_DENY_COUNT_MAP) (\<lambda>c.
     Inr \<lparr>loc_list = l, loc_count = c\<rparr>))"

definition complete_interrupted_deny_stage ::
  "'s PinAbiIo \<Rightarrow> pin_path \<Rightarrow> pin_path \<Rightarrow> 's \<Rightarrow> (pin_error + unit) \<times> 's" where
  "complete_interrupted_deny_stage io pin_root legacy_dir s =
     io_then (io_create_dir_all io legacy_dir s) (\<lambda>_.
     io_for (\<lambda>name s.
         if io_exists io s (join pin_root name) \<and> \<not> io_exists io s (join legacy_dir name)
         then io_rename io (join pin_root name) (join legacy_dir name) s
         else (Inr (), s))
       [PATH_DENY_LIST_MAP, PATH_DENY_COUNT_MAP])"

subsection \<open>Classification\<close>

definition expected_abi :: "string \<Rightarrow> PinnedMapAbi option" where
  "expected_abi name = find (\<lambda>m. pma_name m = name) PINNED_MAP_ABI"

text \<open>The layouts of the two deny maps, given what the pins report.\<close>

definition classify_layouts :: "ObservedMapInfo \<Rightarrow> ObservedMapInfo \<Rightarrow> PinAbiState" where
  "classify_layouts list_info count_info =
     (let list_exp = the (expected_abi PATH_DENY_LIST_MAP);
          count_exp = the (expected_abi PATH_DENY_COUNT_MAP)
      in if is_legacy_path_deny_list list_info \<and> matches_expected count_info count_exp
         then LegacyMigratable
         else if \<not> matches_expected list_info list_exp
         then PinsIncompatible PATH_DENY_LIST_MAP (ListLayout list_info)
         else if \<not> matches_expected count_info count_exp
         then PinsIncompatible PATH_DENY_COUNT_MAP (CountLayout count_info)
         else PinsCompatible)"

text \<open>The process maps are only looked at, so that a pin that is not a map is an error.\<close>

definition check_process_maps :: "'s PinAbiIo \<Rightarrow> pin_path \<Rightarrow> 's \<Rightarrow> pin_error + bool list" where
  "check_process_maps io pin_root s =
     try_map (\<lambda>name.
         if \<not> io_exists io s (join pin_root name) then Inr True
         else and_then (io_map_info io s (join pin_root name)) (\<lambda>info.
              Inr (matches_expected info (the (expected_abi name)))))
       [PROCESS_EVENTS_MAP, RATE_LIMIT_BUCKET_MAP]"

definition assess_pin_abi :: "'s PinAbiIo \<Rightarrow> pin_path \<Rightarrow> 's \<Rightarrow> pin_error + PinAbiState" where
  "assess_pin_abi io pin_root s =
     (let list_path = join pin_root PATH_DENY_LIST_MAP;
          count_path = join pin_root PATH_DENY_COUNT_MAP;
          list_exists = io_exists io s list_path;
          count_exists = io_exists io s count_path
      in and_then (select_deny_legacy_dir io pin_root s) (\<lambda>staged.
         if staged \<noteq> None \<and> \<not> (list_exists \<and> count_exists) then Inr (MigrationInProgress (the staged))
         else if \<not> list_exists \<and> \<not> count_exists then Inr PinsCold
         else if list_exists \<noteq> count_exists
         then Inr (PinsIncompatible (if list_exists then PATH_DENY_LIST_MAP else PATH_DENY_COUNT_MAP)
                PairIncomplete)
         else and_then (io_map_info io s list_path) (\<lambda>list_info.
              and_then (io_map_info io s count_path) (\<lambda>count_info.
              if classify_layouts list_info count_info \<noteq> PinsCompatible
              then Inr (classify_layouts list_info count_info)
              else and_then (check_process_maps io pin_root s) (\<lambda>_.
                   and_then (select_deny_legacy_dir io pin_root s) (\<lambda>staged.
                   case staged of
                     None \<Rightarrow> Inr PinsCompatible
                   | Some legacy_dir \<Rightarrow>
                       and_then (io_read_deny_count io s count_path) (\<lambda>active.
                       Inr (if active = 0 then MigrationInProgress legacy_dir else PinsCompatible))))))))"

subsection \<open>Staging\<close>

function free_legacy_name ::
  "'s PinAbiIo \<Rightarrow> 's \<Rightarrow> pin_path \<Rightarrow> pin_path list \<Rightarrow> nat \<Rightarrow> pin_error + string" where
  "free_legacy_name io s pin_root existing n =
     (let name = LEGACY_ABI_DIR_PREFIX @ show_nat n in
      if join pin_root name \<notin> set existing \<and> \<not> io_exists io s (join pin_root name) then Inr name
      else if 1024 < n + 1 then Inl NamespaceExhausted
      else free_legacy_name io s pin_root existing (n + 1))"
  by pat_completeness auto
termination by (relation "measure (\<lambda>(io, s, r, e, n). 1025 - n)") auto

declare free_legacy_name.simps [simp del]

definition next_legacy_dir_name :: "'s PinAbiIo \<Rightarrow> pin_path \<Rightarrow> 's \<Rightarrow> pin_error + string" where
  "next_legacy_dir_name io pin_root s =
     and_then (list_legacy_abi_dirs io pin_root s) (\<lambda>existing.
     free_legacy_name io s pin_root existing 0)"

definition stage_legacy_deny_pins :: "'s PinAbiIo \<Rightarrow> pin_path \<Rightarrow> 's \<Rightarrow> (pin_error + pin_path) \<times> 's" where
  "stage_legacy_deny_pins io pin_root s =
     (case next_legacy_dir_name io pin_root s of
        Inl e \<Rightarrow> (Inl e, s)
      | Inr name \<Rightarrow>
          (let dest = join pin_root name;
               l = join pin_root PATH_DENY_LIST_MAP;
               c = join pin_root PATH_DENY_COUNT_MAP
           in io_then (io_create_dir_all io dest s) (\<lambda>_ s.
              if \<not> io_exists io s l \<or> \<not> io_exists io s c then (Inl CanonicalPinsMissing, s)
              else io_then (io_rename io c (join dest PATH_DENY_COUNT_MAP) s) (\<lambda>_ s.
                   io_then (io_rename io l (join dest PATH_DENY_LIST_MAP) s) (\<lambda>_ s.
                   (Inr dest, s))))))"

text \<open>One turn of the loop: the result says whether the map was moved away.\<close>

definition recreate_process_map ::
  "'s PinAbiIo \<Rightarrow> pin_path \<Rightarrow> string \<Rightarrow> 's \<Rightarrow> (pin_error + bool) \<times> 's" where
  "recreate_process_map io pin_root name s =
     (let path = join pin_root name; staging = join pin_root (PROC_ABI_DIR_PREFIX @ name) in
      if \<not> io_exists io s path then (Inr False, s)
      else (case io_map_info io s path of
              Inl e \<Rightarrow> (Inl e, s)
            | Inr info \<Rightarrow>
                if matches_expected info (the (expected_abi name)) then (Inr False, s)
                else (let s = snd (io_remove_dir_all io staging s) in
                      io_then (io_create_dir_all io staging s) (\<lambda>_ s.
                      io_then (io_rename io path (join staging name) s) (\<lambda>_ s.
                      (Inr True, s))))))"

definition recreate_mismatched_process_maps ::
  "'s PinAbiIo \<Rightarrow> pin_path \<Rightarrow> 's \<Rightarrow> (pin_error + string list) \<times> 's" where
  "recreate_mismatched_process_maps io pin_root s =
     io_then (recreate_process_map io pin_root PROCESS_EVENTS_MAP s) (\<lambda>a s.
     io_then (recreate_process_map io pin_root RATE_LIMIT_BUCKET_MAP s) (\<lambda>b s.
     (Inr ((if a then [PROCESS_EVENTS_MAP] else []) @ (if b then [RATE_LIMIT_BUCKET_MAP] else [])), s)))"

definition bootstrap_entries_fallback :: "pin_error + PathDenyEntry list" where
  "bootstrap_entries_fallback =
     and_then (try_map (\<lambda>p. ok_or (from_prefix p) (BadBootstrapPrefix p)) BOOTSTRAP_PATH_DENY_PREFIXES) (\<lambda>out.
     if out = [] then Inl EmptyBootstrap else Inr out)"

subsection \<open>Preparing the pin root\<close>

definition report_recreated :: "string list \<Rightarrow> MigrationResult list" where
  "report_recreated procs = (if procs \<noteq> [] then [ProcessMapRecreated] else [])"

text \<open>The first arm of the legacy branch and its fallback: stage the pins, report the seed.\<close>

definition migrate_legacy ::
  "'s PinAbiIo \<Rightarrow> pin_path \<Rightarrow> 's \<Rightarrow> (pin_error + DenySeedOverride \<times> MigrationResult list) \<times> 's" where
  "migrate_legacy io pin_root s =
     (case io_read_legacy_deny_entries_at io s (join pin_root PATH_DENY_LIST_MAP)
             (join pin_root PATH_DENY_COUNT_MAP) of
        Inl _ \<Rightarrow>
          io_then (stage_legacy_deny_pins io pin_root s) (\<lambda>_ s.
          io_then (recreate_mismatched_process_maps io pin_root s) (\<lambda>procs s.
          (map_sum id (\<lambda>es. (MigratedEntries es False, report_recreated procs @ [BootstrapFallback]))
             bootstrap_entries_fallback, s)))
      | Inr entries \<Rightarrow>
          io_then (stage_legacy_deny_pins io pin_root s) (\<lambda>_ s.
          io_then (recreate_mismatched_process_maps io pin_root s) (\<lambda>procs s.
          (Inr (MigratedEntries entries True, report_recreated procs @ [Migrated]), s))))"

text \<open>The loop that frees a canonical name of which a staged copy exists.\<close>

definition free_canonical_pins :: "'s PinAbiIo \<Rightarrow> pin_path \<Rightarrow> pin_path \<Rightarrow> 's \<Rightarrow> (pin_error + unit) \<times> 's" where
  "free_canonical_pins io pin_root legacy_dir =
     io_for (\<lambda>name s.
         if io_exists io s (join pin_root name) \<and> io_exists io s (join legacy_dir name)
         then io_remove_file io (join pin_root name) s
         else (Inr (), s))
       [PATH_DENY_LIST_MAP, PATH_DENY_COUNT_MAP]"

definition both_counts :: "'s PinAbiIo \<Rightarrow> pin_path \<Rightarrow> pin_path \<Rightarrow> 's \<Rightarrow> bool" where
  "both_counts io pin_root legacy_dir s \<longleftrightarrow>
     io_exists io s (join pin_root PATH_DENY_COUNT_MAP) \<and>
     io_exists io s (join legacy_dir PATH_DENY_COUNT_MAP)"

definition resume_readable ::
  "'s PinAbiIo \<Rightarrow> pin_path \<Rightarrow> pin_path \<Rightarrow> PathDenyEntry list \<Rightarrow> 's \<Rightarrow>
   (pin_error + DenySeedOverride \<times> MigrationResult list) \<times> 's" where
  "resume_readable io pin_root legacy_dir entries s =
     io_then
       (if both_counts io pin_root legacy_dir s
        then (case io_read_deny_count io s (join pin_root PATH_DENY_COUNT_MAP) of
                Inl e \<Rightarrow> (Inl e, s)
              | Inr active \<Rightarrow> if active \<noteq> 0 then (Inl (NonEmptyCanonical active), s) else (Inr (), s))
        else (Inr (), s)) (\<lambda>_ s.
     io_then (free_canonical_pins io pin_root legacy_dir s) (\<lambda>_ s.
     (Inr (MigratedEntries entries True, [ResumedMigration]), s)))"

definition resume_unreadable ::
  "'s PinAbiIo \<Rightarrow> pin_path \<Rightarrow> pin_path \<Rightarrow> 's \<Rightarrow>
   (pin_error + DenySeedOverride \<times> MigrationResult list) \<times> 's" where
  "resume_unreadable io pin_root legacy_dir s =
     io_then
       (if both_counts io pin_root legacy_dir s
        then (map_sum id (\<lambda>active. active = 0)
                (io_read_deny_count io s (join pin_root PATH_DENY_COUNT_MAP)), s)
        else (Inr True, s)) (\<lambda>canon_empty_ok s.
     io_then (if canon_empty_ok then free_canonical_pins io pin_root legacy_dir s else (Inr (), s)) (\<lambda>_ s.
     (map_sum id (\<lambda>es. (MigratedEntries es False, [BootstrapFallback])) bootstrap_entries_fallback, s)))"

definition resume_migration ::
  "'s PinAbiIo \<Rightarrow> pin_path \<Rightarrow> pin_path \<Rightarrow> 's \<Rightarrow>
   (pin_error + DenySeedOverride \<times> MigrationResult list) \<times> 's" where
  "resume_migration io pin_root legacy_dir s =
     io_then (complete_interrupted_deny_stage io pin_root legacy_dir s) (\<lambda>_ s.
     case resolve_deny_pin_locations io pin_root legacy_dir s of
       Inl e \<Rightarrow> (Inl e, s)
     | Inr locs \<Rightarrow>
         io_then
           (case io_read_legacy_deny_entries_at io s (loc_list locs) (loc_count locs) of
              Inr entries \<Rightarrow> resume_readable io pin_root legacy_dir entries s
            | Inl _ \<Rightarrow> resume_unreadable io pin_root legacy_dir s) (\<lambda>(seed, results) s.
         io_then (recreate_mismatched_process_maps io pin_root s) (\<lambda>procs s.
         (Inr (seed, results @ report_recreated procs), s))))"

definition prepare_pin_root_for_load ::
  "'s PinAbiIo \<Rightarrow> pin_path \<Rightarrow> 's \<Rightarrow> (pin_error + DenySeedOverride \<times> MigrationResult list) \<times> 's" where
  "prepare_pin_root_for_load io pin_root s =
     (case assess_pin_abi io pin_root s of
        Inl e \<Rightarrow> (Inl e, s)
      | Inr (PinsIncompatible name detail) \<Rightarrow> (Inl (AbiIncompatible name detail), s)
      | Inr PinsCold \<Rightarrow>
          io_then (recreate_mismatched_process_maps io pin_root s) (\<lambda>procs s.
          (Inr (SeedBootstrap, report_recreated procs), s))
      | Inr PinsCompatible \<Rightarrow>
          io_then (recreate_mismatched_process_maps io pin_root s) (\<lambda>procs s.
          (Inr (SeedResumePinned, report_recreated procs @ [ResultCompatible]), s))
      | Inr LegacyMigratable \<Rightarrow> migrate_legacy io pin_root s
      | Inr (MigrationInProgress legacy_dir) \<Rightarrow> resume_migration io pin_root legacy_dir s)"

subsection \<open>Cleaning up\<close>

definition cleanup_legacy_abi_dirs :: "'s PinAbiIo \<Rightarrow> pin_path \<Rightarrow> 's \<Rightarrow> (pin_error + unit) \<times> 's" where
  "cleanup_legacy_abi_dirs io pin_root s =
     (case list_legacy_abi_dirs io pin_root s of
        Inl e \<Rightarrow> (Inl e, s)
      | Inr dirs \<Rightarrow> io_for (io_remove_dir_all io) dirs s)"

definition cleanup_proc_abi_dirs :: "'s PinAbiIo \<Rightarrow> pin_path \<Rightarrow> 's \<Rightarrow> (pin_error + unit) \<times> 's" where
  "cleanup_proc_abi_dirs io pin_root s =
     (case list_proc_abi_dirs io pin_root s of
        Inl e \<Rightarrow> (Inl e, s)
      | Inr dirs \<Rightarrow> io_for (io_remove_dir_all io) dirs s)"

definition legacy_match_equivalent :: "bytes \<Rightarrow> LegacyPathDenyEntry \<Rightarrow> bool" where
  "legacy_match_equivalent path legacy =
     (let len = unat (lpd_len legacy) in
      if len = 0 \<or> PATH_DENY_KEY_BYTES_LEGACY < len then False
      else (let legacy_hit = (len \<le> length path \<and> take len path = take len (lpd_bytes legacy)) in
            case widen legacy of
              Some wide \<Rightarrow> legacy_hit = entry_matches wide path
            | None \<Rightarrow> \<not> legacy_hit))"

subsection \<open>Names\<close>

lemmas pin_names = PATH_DENY_LIST_MAP_def PATH_DENY_COUNT_MAP_def PROCESS_EVENTS_MAP_def
  RATE_LIMIT_BUCKET_MAP_def LEGACY_ABI_DIR_PREFIX_def PROC_ABI_DIR_PREFIX_def

lemma legacy_name_suffix: "n < 2 ^ 32 \<Longrightarrow> legacy_abi_numeric_suffix (LEGACY_ABI_DIR_PREFIX @ show_nat n) = Some n"
  by (simp add: legacy_abi_numeric_suffix_def strip_prefix_def parse_uint_show_nat list_all_iff show_nat_digits)

lemma legacy_name_shape:
  assumes "legacy_abi_numeric_suffix name = Some n"
  obtains ds where "name = LEGACY_ABI_DIR_PREFIX @ ds" "list_all is_ascii_digit ds"
  using assms by (auto simp: legacy_abi_numeric_suffix_def strip_prefix_Some split: option.splits if_splits)

lemma digit_byte:
  assumes "is_ascii_digit c"
  shows "(of_char c :: u8) < 0x80"
proof -
  have "(of_char c :: u8) = of_nat (of_char c)" by (simp only: of_nat_of_char)
  moreover have "of_char c < (128 :: nat)" using assms by (simp add: is_ascii_digit_def)
  ultimately show ?thesis by (simp add: word_less_nat_alt unat_of_nat)
qed

lemma legacy_name_utf8:
  assumes "legacy_abi_numeric_suffix name = Some n"
  shows "utf8_valid (str_bytes name)"
proof -
  obtain ds where name: "name = LEGACY_ABI_DIR_PREFIX @ ds" and ds: "list_all is_ascii_digit ds"
    using assms by (rule legacy_name_shape)
  show ?thesis
  proof (rule utf8_valid_ascii)
    fix b assume "b \<in> set (str_bytes name)"
    then show "b < 0x80"
      using ds by (auto simp: name str_bytes_def LEGACY_ABI_DIR_PREFIX_def list_all_iff digit_byte)
  qed
qed

lemma deny_names_plain [simp]:
  "legacy_abi_numeric_suffix PATH_DENY_LIST_MAP = None" "legacy_abi_numeric_suffix PATH_DENY_COUNT_MAP = None"
  "legacy_abi_numeric_suffix PROCESS_EVENTS_MAP = None" "legacy_abi_numeric_suffix RATE_LIMIT_BUCKET_MAP = None"
  "legacy_abi_numeric_suffix (PROC_ABI_DIR_PREFIX @ n) = None"
  "PATH_DENY_LIST_MAP \<noteq> PATH_DENY_COUNT_MAP" "PATH_DENY_COUNT_MAP \<noteq> PATH_DENY_LIST_MAP"
  by (simp_all add: legacy_abi_numeric_suffix_def strip_prefix_def starts_with_def pin_names)

subsection \<open>What the pins hold\<close>

text \<open>A legacy pair of maps from which \<open>es\<close> is read, and a pair of today's layout that holds it.\<close>

definition holds_legacy :: "map_store \<Rightarrow> nat \<Rightarrow> nat \<Rightarrow> PathDenyEntry list \<Rightarrow> bool" where
  "holds_legacy objs l c es \<longleftrightarrow>
     (\<exists>lm cm xs a cs. objs l = Some lm \<and> objs c = Some cm \<and>
        is_legacy_path_deny_list (mo_info lm) \<and>
        matches_expected (mo_info cm) (the (expected_abi PATH_DENY_COUNT_MAP)) \<and>
        mo_body lm = LegacyEntries xs \<and> mo_body cm = Counters (a # cs) \<and>
        unat a \<le> PATH_DENY_MAX_ENTRIES \<and> unat a \<le> length xs \<and> es \<noteq> [] \<and>
        map widen (take (unat a) xs) = map Some es)"

definition current_map :: "map_store \<Rightarrow> string \<Rightarrow> nat \<Rightarrow> bool" where
  "current_map objs name i \<longleftrightarrow>
     (\<exists>m. objs i = Some m \<and> matches_expected (mo_info m) (the (expected_abi name)))"

definition count_is :: "map_store \<Rightarrow> nat \<Rightarrow> u32 \<Rightarrow> bool" where
  "count_is objs c a \<longleftrightarrow>
     current_map objs PATH_DENY_COUNT_MAP c \<and> (\<exists>m. objs c = Some m \<and> mo_body m = Counters [a])"

definition holds_current :: "map_store \<Rightarrow> nat \<Rightarrow> nat \<Rightarrow> PathDenyEntry list \<Rightarrow> bool" where
  "holds_current objs l c es \<longleftrightarrow>
     es \<noteq> [] \<and> length es \<le> PATH_DENY_MAX_ENTRIES \<and>
     current_map objs PATH_DENY_LIST_MAP l \<and> count_is objs c (of_nat (length es)) \<and>
     (\<exists>m xs. objs l = Some m \<and> mo_body m = DenyEntries xs \<and> length xs = PATH_DENY_MAX_ENTRIES \<and>
             take (length es) xs = es)"

lemma expected_list: "the (expected_abi PATH_DENY_LIST_MAP) =
   \<lparr>pma_name = PATH_DENY_LIST_MAP, pma_map_type = BPF_MAP_TYPE_ARRAY, pma_key_size = 4,
    pma_value_size = of_nat PATH_DENY_ENTRY_SIZE, pma_max_entries = of_nat PATH_DENY_MAX_ENTRIES\<rparr>"
  by (simp add: expected_abi_def PINNED_MAP_ABI_def)

lemma expected_count: "the (expected_abi PATH_DENY_COUNT_MAP) =
   \<lparr>pma_name = PATH_DENY_COUNT_MAP, pma_map_type = BPF_MAP_TYPE_ARRAY, pma_key_size = 4,
    pma_value_size = 4, pma_max_entries = 1\<rparr>"
  by (simp add: expected_abi_def PINNED_MAP_ABI_def)

lemma legacy_not_current:
  "is_legacy_path_deny_list i \<Longrightarrow> \<not> matches_expected i (the (expected_abi PATH_DENY_LIST_MAP))"
  by (simp add: is_legacy_path_deny_list_def matches_expected_def expected_list abi_consts
      PATH_DENY_ENTRY_SIZE_def PATH_DENY_ENTRY_SIZE_LEGACY_def)

lemma holds_legacy_read:
  assumes "holds_legacy objs l c es" "t p = Some (MapPin l)" "t q = Some (MapPin c)"
  shows "read_legacy_deny_entries_at t objs p q = Inr es"
proof -
  from assms(1) obtain lm cm xs a cs where
    m: "objs l = Some lm" "objs c = Some cm" "is_legacy_path_deny_list (mo_info lm)"
      "matches_expected (mo_info cm) (the (expected_abi PATH_DENY_COUNT_MAP))"
      "mo_body lm = LegacyEntries xs" "mo_body cm = Counters (a # cs)"
    and a: "unat a \<le> PATH_DENY_MAX_ENTRIES" "unat a \<le> length xs" "es \<noteq> []"
    and w: "map widen (take (unat a) xs) = map Some es"
    unfolding holds_legacy_def by blast
  from w have len: "length es = unat a" using a by (metis length_map length_take min.absorb2)
  have "widen_slots p xs (unat a) = Inr es"
    unfolding widen_slots_def try_map_Inr
  proof (rule list_all2_all_nthI)
    fix i assume i: "i < length [0..<unat a]"
    then have "widen (xs ! i) = Some (es ! i)"
      using arg_cong [OF w, of "\<lambda>ys. ys ! i"] len a by simp
    with i a show "and_then (ok_or (array_get xs ([0..<unat a] ! i)) (NoElement p))
        (\<lambda>l. ok_or (widen l) (BadLegacyLen ([0..<unat a] ! i))) = Inr (es ! i)"
      by (simp add: array_get_def)
  qed (simp add: len)
  moreover have "a \<noteq> 0" using len a by auto
  ultimately show ?thesis
    using assms(2,3) m a
    by (simp add: read_legacy_deny_entries_at_def pinned_map_def legacy_slots_def counter_slots_def
        typed_array_def is_legacy_path_deny_list_def matches_expected_def expected_count array_get_def min_def)
qed

lemma count_is_read: "count_is objs c a \<Longrightarrow> t p = Some (MapPin c) \<Longrightarrow> read_deny_count t objs p = Inr a"
  by (auto simp: count_is_def current_map_def read_deny_count_def pinned_map_def counter_slots_def
      typed_array_def matches_expected_def expected_count array_get_def
      intro!: exI [of _ "[a]"])

subsection \<open>The state of a migration\<close>

abbreviation proc_names :: "string list" where
  "proc_names \<equiv> [PROCESS_EVENTS_MAP, RATE_LIMIT_BUCKET_MAP]"

abbreviation proc_dir :: "pin_path \<Rightarrow> string \<Rightarrow> pin_path" where
  "proc_dir root n \<equiv> join root (PROC_ABI_DIR_PREFIX @ n)"

abbreviation deny_list_pin :: "pin_path \<Rightarrow> pin_path" where
  "deny_list_pin d \<equiv> join d PATH_DENY_LIST_MAP"

abbreviation deny_count_pin :: "pin_path \<Rightarrow> pin_path" where
  "deny_count_pin d \<equiv> join d PATH_DENY_COUNT_MAP"

text \<open>The pin root is a directory and the names of the process maps are used for them alone.\<close>

definition proc_pin_ok :: "pin_path \<Rightarrow> pin_tree \<Rightarrow> map_store \<Rightarrow> string \<Rightarrow> bool" where
  "proc_pin_ok root t objs n \<longleftrightarrow>
     (t (join root n) = None \<or> (\<exists>i m. t (join root n) = Some (MapPin i) \<and> objs i = Some m)) \<and>
     (t (proc_dir root n) = None \<or> t (proc_dir root n) = Some DirNode) \<and>
     t (join (proc_dir root n) n) \<noteq> Some DirNode"

definition pin_base :: "pin_path \<Rightarrow> pin_tree \<Rightarrow> map_store \<Rightarrow> bool" where
  "pin_base root t objs \<longleftrightarrow>
     root \<noteq> [] \<and> (\<forall>q. q \<noteq> [] \<and> prefix q root \<longrightarrow> t q = Some DirNode) \<and>
     list_all (proc_pin_ok root t objs) proc_names"

lemma base_prefix: "pin_base root t objs \<Longrightarrow> q \<noteq> [] \<Longrightarrow> prefix q root \<Longrightarrow> t q = Some DirNode"
  by (simp add: pin_base_def)

lemma base_root: "pin_base root t objs \<Longrightarrow> t root = Some DirNode"
  by (simp add: pin_base_def)

lemma base_proc: "pin_base root t objs \<Longrightarrow> n \<in> set proc_names \<Longrightarrow> proc_pin_ok root t objs n"
  by (auto simp: pin_base_def)

lemma pin_baseI:
  assumes "pin_base root t objs" "\<And>q. prefix q root \<Longrightarrow> t' q = t q"
    and "\<And>n. n \<in> set proc_names \<Longrightarrow> proc_pin_ok root t objs n \<Longrightarrow> proc_pin_ok root t' objs' n"
  shows "pin_base root t' objs'"
  using assms by (simp add: pin_base_def)

definition staging_dir :: "pin_path \<Rightarrow> pin_path \<Rightarrow> bool" where
  "staging_dir root d \<longleftrightarrow> (\<exists>name. d = join root name \<and> legacy_abi_numeric_suffix name \<noteq> None)"

text \<open>No staging directory other than those of \<open>ds\<close> holds a deny pin.\<close>

definition no_deny_pins :: "pin_path \<Rightarrow> pin_tree \<Rightarrow> pin_path set \<Rightarrow> bool" where
  "no_deny_pins root t ds \<longleftrightarrow>
     (\<forall>d. staging_dir root d \<and> d \<notin> ds \<longrightarrow> t (deny_list_pin d) = None \<and> t (deny_count_pin d) = None)"

text \<open>
  Where the policy \<open>es\<close> is while its maps are migrated: under the canonical names in the old
  layout, with the count already moved to the staging directory \<open>d\<close>, with both pins there, or
  under the canonical names in today's layout.
\<close>

definition legacy_intact :: "pin_path \<Rightarrow> PathDenyEntry list \<Rightarrow> pin_tree \<Rightarrow> map_store \<Rightarrow> bool" where
  "legacy_intact root es t objs \<longleftrightarrow>
     no_deny_pins root t {} \<and>
     (\<exists>l c. t (deny_list_pin root) = Some (MapPin l) \<and> t (deny_count_pin root) = Some (MapPin c) \<and>
            holds_legacy objs l c es)"

definition legacy_half_staged ::
  "pin_path \<Rightarrow> pin_path \<Rightarrow> PathDenyEntry list \<Rightarrow> pin_tree \<Rightarrow> map_store \<Rightarrow> bool" where
  "legacy_half_staged root d es t objs \<longleftrightarrow>
     staging_dir root d \<and> no_deny_pins root t {d} \<and> t d = Some DirNode \<and>
     t (deny_count_pin root) = None \<and> t (deny_list_pin d) = None \<and>
     (\<exists>l c. t (deny_list_pin root) = Some (MapPin l) \<and> t (deny_count_pin d) = Some (MapPin c) \<and>
            holds_legacy objs l c es)"

definition legacy_staged :: "pin_path \<Rightarrow> pin_path \<Rightarrow> PathDenyEntry list \<Rightarrow> pin_tree \<Rightarrow> map_store \<Rightarrow> bool" where
  "legacy_staged root d es t objs \<longleftrightarrow>
     staging_dir root d \<and> no_deny_pins root t {d} \<and> t d = Some DirNode \<and>
     (\<exists>l c. t (deny_list_pin d) = Some (MapPin l) \<and> t (deny_count_pin d) = Some (MapPin c) \<and>
            holds_legacy objs l c es)"

definition policy_seeded :: "pin_path \<Rightarrow> PathDenyEntry list \<Rightarrow> pin_tree \<Rightarrow> map_store \<Rightarrow> bool" where
  "policy_seeded root es t objs \<longleftrightarrow>
     (\<exists>l c. t (deny_list_pin root) = Some (MapPin l) \<and> t (deny_count_pin root) = Some (MapPin c) \<and>
            holds_current objs l c es)"

text \<open>The canonical names are free, or taken by maps that the loader made and nobody has seeded.\<close>

definition fresh_list :: "pin_path \<Rightarrow> pin_tree \<Rightarrow> map_store \<Rightarrow> bool" where
  "fresh_list root t objs \<longleftrightarrow> t (deny_list_pin root) = None \<or>
     (\<exists>i. t (deny_list_pin root) = Some (MapPin i) \<and> current_map objs PATH_DENY_LIST_MAP i)"

definition fresh_count :: "pin_path \<Rightarrow> pin_tree \<Rightarrow> map_store \<Rightarrow> bool" where
  "fresh_count root t objs \<longleftrightarrow> t (deny_count_pin root) = None \<or>
     (\<exists>i. t (deny_count_pin root) = Some (MapPin i) \<and> count_is objs i 0)"

inductive migrating :: "pin_path \<Rightarrow> PathDenyEntry list \<Rightarrow> pin_tree \<Rightarrow> map_store \<Rightarrow> bool"
  for root es t objs where
  intact: "pin_base root t objs \<Longrightarrow> legacy_intact root es t objs \<Longrightarrow> migrating root es t objs"
| half_staged: "pin_base root t objs \<Longrightarrow> legacy_half_staged root d es t objs \<Longrightarrow> migrating root es t objs"
| staged: "pin_base root t objs \<Longrightarrow> legacy_staged root d es t objs \<Longrightarrow>
     fresh_list root t objs \<Longrightarrow> fresh_count root t objs \<Longrightarrow> migrating root es t objs"
| seeded: "pin_base root t objs \<Longrightarrow> policy_seeded root es t objs \<Longrightarrow> migrating root es t objs"

text \<open>Changes that stay within the names of the process maps.\<close>

definition proc_area :: "pin_path \<Rightarrow> pin_path \<Rightarrow> bool" where
  "proc_area root q \<longleftrightarrow> (\<exists>n \<in> set proc_names. q = join root n \<or> prefix (proc_dir root n) q)"

definition proc_frame :: "pin_path \<Rightarrow> pin_tree \<Rightarrow> pin_tree \<Rightarrow> bool" where
  "proc_frame root t t' \<longleftrightarrow> (\<forall>q. \<not> proc_area root q \<longrightarrow> t' q = t q)"

lemma staging_dir_join [simp]: "staging_dir root (join root x) \<longleftrightarrow> legacy_abi_numeric_suffix x \<noteq> None"
  by (simp add: staging_dir_def)

lemma staging_dirE:
  assumes "staging_dir root d"
  obtains name k where "d = join root name" "legacy_abi_numeric_suffix name = Some k"
  using assms by (auto simp: staging_dir_def)

lemma proc_area_outside [simp]:
  "\<not> proc_area root (deny_list_pin root)" "\<not> proc_area root (deny_count_pin root)"
  by (simp_all add: proc_area_def pin_names)

lemma proc_area_prefix [simp]: "prefix q root \<Longrightarrow> \<not> proc_area root q"
  by (auto simp: proc_area_def prefix_def)

lemma proc_area_staging [simp]:
  assumes "staging_dir root d"
  shows "\<not> proc_area root d" "\<not> proc_area root (join d x)"
proof -
  have "d \<noteq> join root n" if "n \<in> set proc_names" for n
    using assms that by auto
  moreover have "\<not> prefix (proc_dir root n) d" "\<not> prefix (proc_dir root n) (join d x)" for n
    using assms by (auto elim!: staging_dirE)
  ultimately show "\<not> proc_area root d"
    unfolding proc_area_def by blast
  have "join d x \<noteq> join root n" for n
    using assms by (auto elim!: staging_dirE)
  then show "\<not> proc_area root (join d x)"
    using \<open>\<And>n. \<not> prefix (proc_dir root n) (join d x)\<close> unfolding proc_area_def by blast
qed

text \<open>The phases of a migration do not depend on the process maps.\<close>

lemma phases_proc_frame:
  assumes "proc_frame root t t'"
  shows "legacy_intact root es t objs \<Longrightarrow> legacy_intact root es t' objs"
    "legacy_half_staged root d es t objs \<Longrightarrow> legacy_half_staged root d es t' objs"
    "legacy_staged root d es t objs \<Longrightarrow> legacy_staged root d es t' objs"
    "policy_seeded root es t objs \<Longrightarrow> policy_seeded root es t' objs"
    "fresh_list root t objs \<Longrightarrow> fresh_list root t' objs" "fresh_count root t objs \<Longrightarrow> fresh_count root t' objs"
proof -
  have keep: "t' q = t q" if "\<not> proc_area root q" for q
    using assms that by (simp add: proc_frame_def)
  have nd: "no_deny_pins root t' ds = no_deny_pins root t ds" for ds
    by (simp add: no_deny_pins_def keep cong: imp_cong conj_cong)
  show "legacy_intact root es t objs \<Longrightarrow> legacy_intact root es t' objs"
    by (simp add: legacy_intact_def nd keep)
  show "policy_seeded root es t objs \<Longrightarrow> policy_seeded root es t' objs"
    by (simp add: policy_seeded_def keep)
  show "fresh_list root t objs \<Longrightarrow> fresh_list root t' objs" "fresh_count root t objs \<Longrightarrow> fresh_count root t' objs"
    by (simp_all add: fresh_list_def fresh_count_def keep)
  show "legacy_half_staged root d es t objs \<Longrightarrow> legacy_half_staged root d es t' objs"
    by (auto simp: legacy_half_staged_def nd keep)
  show "legacy_staged root d es t objs \<Longrightarrow> legacy_staged root d es t' objs"
    by (auto simp: legacy_staged_def nd keep)
qed

lemma migrating_proc_frame:
  "migrating root es t objs \<Longrightarrow> proc_frame root t t' \<Longrightarrow> pin_base root t' objs \<Longrightarrow> migrating root es t' objs"
  by (erule migrating.cases) (auto intro: migrating.intros phases_proc_frame)

lemma distinct_map_sort: "distinct (map g (sort_key f xs)) \<longleftrightarrow> distinct (map g xs)"
  by (simp add: distinct_map)

context pin_io
begin

lemma list_legacy_abi_dirs_ok:
  assumes "tree s root = Some DirNode"
  shows "\<exists>ds. list_legacy_abi_dirs io root s = Inr ds \<and> distinct ds \<and>
              set ds = {d. staging_dir root d \<and> tree s d = Some DirNode}"
proof -
  obtain ns where ns: "io_read_dir_names io s root = Inr ns"
    "distinct ns"
    "set ns = {n. tree s (join root n) \<noteq> None \<and> utf8_valid (str_bytes n)}"
    using read_dir [OF assms] by blast
  let ?f = "\<lambda>name. case legacy_abi_numeric_suffix name of None \<Rightarrow> None
     | Some n \<Rightarrow> if io_is_dir io s (join root name) then Some (n, join root name) else None"
  have "snd ` set (List.map_filter ?f ns) = {d. staging_dir root d \<and> tree s d = Some DirNode}"
  proof (intro set_eqI iffI)
    fix d assume "d \<in> snd ` set (List.map_filter ?f ns)"
    then obtain x k where "?f x = Some (k, d)" by (auto simp only: set_map_filter_iff image_iff) simp
    then show "d \<in> {d. staging_dir root d \<and> tree s d = Some DirNode}"
      by (cases "legacy_abi_numeric_suffix x") (auto split: if_splits)
  next
    fix d assume "d \<in> {d. staging_dir root d \<and> tree s d = Some DirNode}"
    then obtain name k where d: "d = join root name" "legacy_abi_numeric_suffix name = Some k"
      "tree s d = Some DirNode"
      by (auto elim: staging_dirE)
    then have "name \<in> set ns" by (simp add: ns(3) legacy_name_utf8)
    with d have "(k, d) \<in> set (List.map_filter ?f ns)"
      by (auto simp: set_map_filter_iff intro!: bexI [of _ name])
    then show "d \<in> snd ` set (List.map_filter ?f ns)" by force
  qed
  moreover have "distinct (map snd (List.map_filter ?f ns))"
    using ns(2) by (induction ns) (auto simp: map_filter_simps set_map_filter_iff split: option.splits if_splits)
  ultimately show ?thesis
    by (simp add: list_legacy_abi_dirs_def ns(1) distinct_map_sort)
qed

lemma better_dir_skips:
  assumes "tree s (deny_list_pin d) = None" "tree s (deny_count_pin d) = None"
  shows "better_dir io s d best = best"
  using assms by (simp add: better_dir_def split: option.splits)

lemma fold_better_none:
  assumes "\<forall>d \<in> set ds. tree s (deny_list_pin d) = None \<and> tree s (deny_count_pin d) = None"
  shows "fold (better_dir io s) ds best = best"
  using assms by (induction ds arbitrary: best) (simp_all add: better_dir_skips)

lemma fold_better_one:
  assumes "\<forall>e \<in> set ds. e \<noteq> d \<longrightarrow> tree s (deny_list_pin e) = None \<and> tree s (deny_count_pin e) = None"
    and "legacy_abi_numeric_suffix (last d) = Some n"
    and "tree s (deny_list_pin d) \<noteq> None \<or> tree s (deny_count_pin d) \<noteq> None"
    and "best = None \<or> best = Some (n, d)"
  shows "fold (better_dir io s) ds best = (if d \<in> set ds then Some (n, d) else best)"
  using assms(1,4)
proof (induction ds arbitrary: best)
  case (Cons e ds)
  show ?case
  proof (cases "e = d")
    case True
    have "better_dir io s d best = Some (n, d)"
      using assms(2,3) Cons.prems(2) by (auto simp: better_dir_def)
    then show ?thesis using Cons.IH [of "Some (n, d)"] Cons.prems True by simp
  next
    case False
    with Cons show ?thesis by (simp add: better_dir_skips)
  qed
qed simp

lemma select_total:
  assumes "tree s root = Some DirNode"
  shows "\<exists>r. select_deny_legacy_dir io root s = Inr r"
  using list_legacy_abi_dirs_ok [OF assms] by (auto simp: select_deny_legacy_dir_def)

lemma select_none:
  assumes "tree s root = Some DirNode" "no_deny_pins root (tree s) {}"
  shows "select_deny_legacy_dir io root s = Inr None"
proof -
  obtain ds where ds: "list_legacy_abi_dirs io root s = Inr ds"
    "set ds = {d. staging_dir root d \<and> tree s d = Some DirNode}"
    using list_legacy_abi_dirs_ok [OF assms(1)] by blast
  have "fold (better_dir io s) ds None = None"
    by (rule fold_better_none) (use assms(2) ds(2) in \<open>simp add: no_deny_pins_def\<close>)
  then show ?thesis by (simp add: select_deny_legacy_dir_def ds(1))
qed

lemma select_one:
  assumes "tree s root = Some DirNode" "no_deny_pins root (tree s) {d}" "staging_dir root d"
    "tree s d = Some DirNode" "tree s (deny_list_pin d) \<noteq> None \<or> tree s (deny_count_pin d) \<noteq> None"
  shows "select_deny_legacy_dir io root s = Inr (Some d)"
proof -
  obtain ds where ds: "list_legacy_abi_dirs io root s = Inr ds"
    "set ds = {d. staging_dir root d \<and> tree s d = Some DirNode}"
    using list_legacy_abi_dirs_ok [OF assms(1)] by blast
  obtain n where n: "legacy_abi_numeric_suffix (last d) = Some n"
    using assms(3) by (auto elim: staging_dirE)
  have "fold (better_dir io s) ds None = (if d \<in> set ds then Some (n, d) else None)"
    by (rule fold_better_one) (use assms n ds(2) in \<open>auto simp: no_deny_pins_def simp del: not_None_eq\<close>)
  then show ?thesis using ds assms by (simp add: select_deny_legacy_dir_def)
qed

lemma check_process_maps_ok:
  assumes "pin_base root (tree s) (objs s)"
  shows "\<exists>r. check_process_maps io root s = Inr r"
  using base_proc [OF assms, of PROCESS_EVENTS_MAP] base_proc [OF assms, of RATE_LIMIT_BUCKET_MAP]
  unfolding check_process_maps_def proc_pin_ok_def
  by (auto simp: map_info_def pinned_map_def)

text \<open>Making a directory below the pin root adds that directory only.\<close>

lemma create_below:
  assumes "pin_base root (tree s) (objs s)" "tree s (join root x) = None \<or> tree s (join root x) = Some DirNode"
  shows "ends_in (io_create_dir_all io (join root x) s)
           (\<lambda>_ s'. tree s' = (tree s)(join root x := Some DirNode) \<and> objs s' = objs s)
           (\<lambda>s'. \<not> live \<and> tree s' = tree s \<and> objs s' = objs s)"
proof (rule ends_in_mono [OF create_dir])
  fix q assume "q \<noteq> []" "prefix q (join root x)"
  then show "tree s q = None \<or> tree s q = Some DirNode"
    using assms(2) base_prefix [OF assms(1)] by (metis prefix_snoc)
next
  have "with_dirs (join root x) (tree s) = (tree s)(join root x := Some DirNode)"
    using assms(2) base_prefix [OF assms(1)]
    by (intro ext) (simp add: with_dirs_def del: not_None_eq, metis option.distinct(1))
  then show "tree s' = (tree s)(join root x := Some DirNode) \<and> objs s' = objs s"
    if "tree s' = with_dirs (join root x) (tree s) \<and> objs s' = objs s" for s'
    using that by simp
qed

end

end
