(* ===== verification/Pin_Migration.thy ===== *)
theory Pin_Migration
  imports Pin_Abi
begin

section \<open>A migration survives interruption\<close>

text \<open>
  The preparation of the pin root as a computation that may be cut short at any call: from
  every state in which the policy \<open>es\<close> is on the node, whatever calls fail, the policy is
  still there afterwards, and when none fails the preparation ends with the policy staged in
  full or already seeded. The lemmas are proved over the laws of \<open>pin_io\<close>.
\<close>

lemma proc_names_apart [simp]:
  "PROC_ABI_DIR_PREFIX @ m \<noteq> PROCESS_EVENTS_MAP" "PROC_ABI_DIR_PREFIX @ m \<noteq> RATE_LIMIT_BUCKET_MAP"
  "PROCESS_EVENTS_MAP \<noteq> PROC_ABI_DIR_PREFIX @ m" "RATE_LIMIT_BUCKET_MAP \<noteq> PROC_ABI_DIR_PREFIX @ m"
  "PROCESS_EVENTS_MAP \<noteq> RATE_LIMIT_BUCKET_MAP" "RATE_LIMIT_BUCKET_MAP \<noteq> PROCESS_EVENTS_MAP"
  "PROC_ABI_DIR_PREFIX \<noteq> []"
  by (simp_all add: pin_names)

lemma proc_area_names [simp]:
  "n \<in> set proc_names \<Longrightarrow> proc_area root (join root n)"
  "n \<in> set proc_names \<Longrightarrow> prefix (proc_dir root n) q \<Longrightarrow> proc_area root q"
  by (auto simp: proc_area_def)

lemma base_proc_pruned:
  assumes base: "pin_base root t objs" and n: "n \<in> set proc_names" and p: "pruned (proc_dir root n) t t'"
  shows "pin_base root t' objs"
proof -
  have same: "t' q = t q" if "\<not> prefix (proc_dir root n) q" for q
    using p that by (auto simp: pruned_def)
  have less: "t' q = t q \<or> t' q = None" for q
    using p by (auto simp: pruned_def)
  have m: "t' (join root m) = t (join root m)" if "m \<in> set proc_names" for m
    using that n by (intro same) auto
  have r: "t' q = t q" if "prefix q root" for q
    using that by (intro same) (auto simp: prefix_def)
  show ?thesis
  proof (rule pin_baseI [OF base r])
    fix m' assume m': "m' \<in> set proc_names" and "proc_pin_ok root t objs m'"
    then show "proc_pin_ok root t' objs m'"
      using less [of "proc_dir root m'"] less [of "join (proc_dir root m') m'"]
      unfolding proc_pin_ok_def m [OF m'] by auto
  qed simp
qed

lemma base_proc_dir:
  assumes "pin_base root t objs" "n \<in> set proc_names"
  shows "pin_base root (t(proc_dir root n := Some DirNode)) objs"
  using assms(2) by (intro pin_baseI [OF assms(1)]) (auto simp: proc_pin_ok_def)

lemma base_proc_moved:
  assumes "pin_base root t objs" "n \<in> set proc_names" "t (join root n) = Some (MapPin i)"
  shows "pin_base root (t(join root n := None, join (proc_dir root n) n := Some (MapPin i))) objs"
  using assms(2,3) by (intro pin_baseI [OF assms(1)]) (auto simp: proc_pin_ok_def prefix_def)

lemma proc_frame_refl [simp]: "proc_frame root t t"
  by (simp add: proc_frame_def)

lemma proc_frame_trans: "proc_frame root t t' \<Longrightarrow> proc_frame root t' t'' \<Longrightarrow> proc_frame root t t''"
  by (simp add: proc_frame_def)

lemma proc_frame_upd: "proc_frame root t t' \<Longrightarrow> proc_area root q \<Longrightarrow> proc_frame root t (t'(q := x))"
  by (auto simp: proc_frame_def)

lemma proc_frame_pruned: "n \<in> set proc_names \<Longrightarrow> pruned (proc_dir root n) t t' \<Longrightarrow> proc_frame root t t'"
  by (auto simp: proc_frame_def pruned_def proc_area_def)

lemma pruned_without [simp]: "pruned p t (without_tree p t)" "pruned p t t"
  by (auto simp: pruned_def without_tree_def)

definition proc_kept :: "pin_path \<Rightarrow> pin_tree \<Rightarrow> map_store \<Rightarrow> pin_tree \<Rightarrow> map_store \<Rightarrow> bool" where
  "proc_kept root t objs t' objs' \<longleftrightarrow> pin_base root t' objs' \<and> objs' = objs \<and> proc_frame root t t'"

lemma proc_kept_refl: "pin_base root t objs \<Longrightarrow> proc_kept root t objs t objs"
  by (simp add: proc_kept_def)

lemma proc_kept_trans:
  "proc_kept root t objs t' objs' \<Longrightarrow> proc_kept root t' objs' t'' objs'' \<Longrightarrow> proc_kept root t objs t'' objs''"
  by (auto simp: proc_kept_def intro: proc_frame_trans)

lemma proc_kept_base: "proc_kept root t objs t' objs' \<Longrightarrow> pin_base root t' objs'"
  by (auto simp: proc_kept_def)

lemma proc_kept_step:
  "proc_kept root t objs t' objs' \<Longrightarrow> proc_frame root t' t'' \<Longrightarrow> pin_base root t'' objs' \<Longrightarrow>
   proc_kept root t objs t'' objs'"
  by (auto simp: proc_kept_def intro: proc_frame_trans)

lemma migrating_proc_kept:
  "migrating root es t objs \<Longrightarrow> proc_kept root t objs t' objs' \<Longrightarrow> migrating root es t' objs'"
  by (auto simp: proc_kept_def intro: migrating_proc_frame)

context pin_io
begin

abbreviation kept :: "pin_path \<Rightarrow> 's \<Rightarrow> 's \<Rightarrow> bool" where
  "kept root s s' \<equiv> proc_kept root (tree s) (objs s) (tree s') (objs s')"

lemma remove_proc_dir:
  assumes "pin_base root (tree s) (objs s)" "n \<in> set proc_names"
    and "s1 = snd (io_remove_dir_all io (proc_dir root n) s)"
  shows "kept root s s1" "tree s1 (join root n) = tree s (join root n)"
proof -
  have p: "pruned (proc_dir root n) (tree s) (tree s1) \<and> objs s1 = objs s"
  proof (cases "tree s (proc_dir root n) = Some DirNode")
    case True
    from remove_dir_all [OF this] show ?thesis
      unfolding assms(3) by (auto simp: ends_in_def split: prod.splits sum.splits)
  next
    case False
    from remove_no_dir [OF this] show ?thesis unfolding assms(3) by auto
  qed
  with assms show "kept root s s1"
    by (auto simp: proc_kept_def intro: base_proc_pruned proc_frame_pruned)
  show "tree s1 (join root n) = tree s (join root n)"
    using p assms(2) by (auto simp: pruned_def dest!: spec [of _ "join root n"])
qed

lemma recreate_process_map_ends:
  assumes base: "pin_base root (tree s) (objs s)" and n: "n \<in> set proc_names"
  shows "ends_in (recreate_process_map io root n s) (\<lambda>_. kept root s) (\<lambda>s'. \<not> live \<and> kept root s s')"
proof (cases "tree s (join root n) = None \<or>
    (\<exists>info. map_info (tree s) (objs s) (join root n) = Inr info \<and> matches_expected info (the (expected_abi n)))")
  case True
  then have "recreate_process_map io root n s = (Inr False, s)"
    by (auto simp: recreate_process_map_def Let_def)
  with base show ?thesis by (simp add: proc_kept_refl)
next
  case False
  then obtain i m where i: "tree s (join root n) = Some (MapPin i)" "objs s i = Some m"
    using base_proc [OF base n] by (auto simp: proc_pin_ok_def)
  with False have mis: "map_info (tree s) (objs s) (join root n) = Inr (mo_info m)"
    "\<not> matches_expected (mo_info m) (the (expected_abi n))"
    by (auto simp: map_info_def pinned_map_def)
  define s1 where "s1 = snd (io_remove_dir_all io (proc_dir root n) s)"
  note k1 = remove_proc_dir [OF base n s1_def]
  have base1: "pin_base root (tree s1) (objs s1)" by (rule proc_kept_base [OF k1(1)])
  have "recreate_process_map io root n s =
      io_then (io_create_dir_all io (proc_dir root n) s1) (\<lambda>_ s.
      io_then (io_rename io (join root n) (join (proc_dir root n) n) s) (\<lambda>_ s. (Inr True, s)))"
    using i mis by (simp add: recreate_process_map_def Let_def s1_def)
  also have "ends_in \<dots> (\<lambda>_. kept root s) (\<lambda>s'. \<not> live \<and> kept root s s')"
  proof (rule ends_in_then [OF ends_in_mono [OF create_below [OF base1]]])
    show "tree s1 (proc_dir root n) = None \<or> tree s1 (proc_dir root n) = Some DirNode"
      using base_proc [OF base1 n] by (simp add: proc_pin_ok_def)
  next
    fix s' assume "\<not> live \<and> tree s' = tree s1 \<and> objs s' = objs s1"
    then show "\<not> live \<and> kept root s s'" using k1 by simp
  next
    fix u :: unit and s2
    assume s2: "tree s2 = (tree s1)(proc_dir root n := Some DirNode) \<and> objs s2 = objs s1"
    have base2: "pin_base root (tree s2) (objs s2)" using base_proc_dir [OF base1 n] s2 by simp
    have "proc_frame root (tree s1) (tree s2)"
      using s2 n by (simp add: proc_frame_upd)
    with base2 s2 have f2: "kept root s s2"
      using proc_kept_step [OF k1(1), of "tree s2"] by simp
    have i2: "tree s2 (join root n) = Some (MapPin i)"
      using k1(2) i s2 n by auto
    show "ends_in (io_then (io_rename io (join root n) (join (proc_dir root n) n) s2) (\<lambda>_ s. (Inr True, s)))
       (\<lambda>_. kept root s) (\<lambda>s'. \<not> live \<and> kept root s s')"
    proof (rule ends_in_then [OF ends_in_mono [OF rename [OF i2]]])
      show "tree s2 (butlast (join (proc_dir root n) n)) = Some DirNode"
        using s2 by (simp only: butlast_snoc) simp
      show "tree s2 (join (proc_dir root n) n) \<noteq> Some DirNode" using base_proc [OF base2 n] by (simp add: proc_pin_ok_def)
    next
      fix u :: unit and s3
      assume s3: "tree s3 = (tree s2)(join root n := None, join (proc_dir root n) n \<mapsto> MapPin i) \<and> objs s3 = objs s2"
      have "proc_frame root (tree s2) (tree s3)"
        using s3 n by (simp add: proc_frame_upd)
      with s3 have "kept root s s3"
        using proc_kept_step [OF f2, of "tree s3"] base_proc_moved [OF base2 n i2] by simp
      then show "ends_in (Inr True, s3) (\<lambda>_. kept root s) (\<lambda>s'. \<not> live \<and> kept root s s')" by simp
    next
      fix s' assume "\<not> live \<and> tree s' = tree s2 \<and> objs s' = objs s2"
      then show "\<not> live \<and> kept root s s'" using f2 by simp
    qed simp_all
  qed
  finally show ?thesis .
qed

lemma recreate_ends:
  assumes "pin_base root (tree s) (objs s)"
  shows "ends_in (recreate_mismatched_process_maps io root s) (\<lambda>_. kept root s) (\<lambda>s'. \<not> live \<and> kept root s s')"
  unfolding recreate_mismatched_process_maps_def
proof (rule ends_in_then [OF recreate_process_map_ends [OF assms]])
  fix a s1 assume k: "kept root s s1"
  then have base1: "pin_base root (tree s1) (objs s1)" by (rule proc_kept_base)
  show "ends_in (io_then (recreate_process_map io root RATE_LIMIT_BUCKET_MAP s1) (\<lambda>b s.
      (Inr ((if a then [PROCESS_EVENTS_MAP] else []) @ (if b then [RATE_LIMIT_BUCKET_MAP] else [])), s)))
      (\<lambda>_. kept root s) (\<lambda>s'. \<not> live \<and> kept root s s')"
  proof (rule ends_in_then [OF ends_in_mono [OF recreate_process_map_ends [OF base1]]])
    show "RATE_LIMIT_BUCKET_MAP \<in> set proc_names" by simp
  next
    fix s' assume "\<not> live \<and> kept root s1 s'"
    then show "\<not> live \<and> kept root s s'" by (simp add: proc_kept_trans [OF k])
  next
    fix b s' assume "kept root s1 s'"
    then show "ends_in (Inr ((if a then [PROCESS_EVENTS_MAP] else []) @ (if b then [RATE_LIMIT_BUCKET_MAP] else [])), s')
        (\<lambda>_. kept root s) (\<lambda>s'. \<not> live \<and> kept root s s')"
      by (simp add: proc_kept_trans [OF k])
  qed
qed simp

end

lemma base_no_proc:
  assumes "pin_base root t objs" "\<And>q. prefix q root \<or> proc_area root q \<Longrightarrow> t' q = t q"
  shows "pin_base root t' objs"
proof (rule pin_baseI [OF assms(1)])
  fix n assume "n \<in> set proc_names" "proc_pin_ok root t objs n"
  moreover from this have "t' (join root n) = t (join root n)" "t' (proc_dir root n) = t (proc_dir root n)"
    "t' (join (proc_dir root n) n) = t (join (proc_dir root n) n)"
    by (auto intro!: assms(2) simp: proc_area_def)
  ultimately show "proc_pin_ok root t' objs n" by (simp add: proc_pin_ok_def)
qed (simp add: assms(2))

text \<open>Only a root that is not a prefix of the paths a step writes is kept by that step.\<close>

lemma not_prefix_below [simp]: "\<not> prefix (join root x) root" "\<not> prefix (join (join root x) y) root"
  by (auto simp: prefix_def)

lemma staging_paths [simp]:
  assumes "staging_dir root d"
  shows "\<not> prefix d root" "\<not> prefix (join d x) root" "d \<noteq> deny_list_pin root" "d \<noteq> deny_count_pin root"
    "join d x \<noteq> join root y" "join root y \<noteq> join d x" "d \<noteq> []" "d \<noteq> root" "root \<noteq> d"
  using assms by (auto elim!: staging_dirE)

lemma staging_nested [simp]: "staging_dir root d \<Longrightarrow> \<not> staging_dir root (join d x)"
  by (auto elim!: staging_dirE)

lemma butlast_join: "butlast (join d x) = d"
  by simp

context pin_io
begin

lemma assess_intact:
  assumes "pin_base root (tree s) (objs s)" "legacy_intact root es (tree s) (objs s)"
  shows "assess_pin_abi io root s = Inr LegacyMigratable"
  using assms(2) select_none [OF base_root [OF assms(1)]]
  by (auto simp: legacy_intact_def assess_pin_abi_def Let_def holds_legacy_def map_info_def pinned_map_def
      classify_layouts_def)

lemma assess_resumes:
  assumes "pin_base root (tree s) (objs s)" "no_deny_pins root (tree s) {d}" "staging_dir root d"
    "tree s d = Some DirNode" "tree s (deny_count_pin d) \<noteq> None"
    "tree s (deny_list_pin root) = None \<or> tree s (deny_count_pin root) = None"
  shows "assess_pin_abi io root s = Inr (MigrationInProgress d)"
  using assms(6) select_one [OF base_root [OF assms(1)] assms(2-4)] assms(5)
  by (auto simp: assess_pin_abi_def Let_def)

lemma assess_poisoned:
  assumes "pin_base root (tree s) (objs s)" "no_deny_pins root (tree s) {d}" "staging_dir root d"
    "tree s d = Some DirNode" "tree s (deny_count_pin d) \<noteq> None"
    "tree s (deny_list_pin root) = Some (MapPin i)" "current_map (objs s) PATH_DENY_LIST_MAP i"
    "tree s (deny_count_pin root) = Some (MapPin j)" "count_is (objs s) j 0"
  shows "assess_pin_abi io root s = Inr (MigrationInProgress d)"
proof -
  have sel: "select_deny_legacy_dir io root s = Inr (Some d)"
    using assms by (intro select_one [OF base_root [OF assms(1)]]) auto
  obtain r where r: "check_process_maps io root s = Inr r"
    using check_process_maps_ok [OF assms(1)] by blast
  have cnt: "read_deny_count (tree s) (objs s) (deny_count_pin root) = Inr 0"
    by (rule count_is_read [OF assms(9)]) (rule assms(8))
  obtain lm cm where m: "objs s i = Some lm" "matches_expected (mo_info lm) (the (expected_abi PATH_DENY_LIST_MAP))"
    "objs s j = Some cm" "matches_expected (mo_info cm) (the (expected_abi PATH_DENY_COUNT_MAP))"
    using assms(7,9) by (auto simp: current_map_def count_is_def)
  then have "classify_layouts (mo_info lm) (mo_info cm) = PinsCompatible"
    using legacy_not_current by (auto simp: classify_layouts_def Let_def)
  with m assms(6,8) sel r cnt show ?thesis
    by (simp add: assess_pin_abi_def Let_def map_info_def pinned_map_def)
qed

lemma assess_seeded:
  assumes "pin_base root (tree s) (objs s)" "policy_seeded root es (tree s) (objs s)"
  shows "assess_pin_abi io root s = Inr PinsCompatible"
proof -
  obtain i j where pins: "tree s (deny_list_pin root) = Some (MapPin i)" "tree s (deny_count_pin root) = Some (MapPin j)"
    and cur: "holds_current (objs s) i j es"
    using assms(2) by (auto simp: policy_seeded_def)
  obtain d where sel: "select_deny_legacy_dir io root s = Inr d"
    using select_total [OF base_root [OF assms(1)]] by blast
  obtain r where r: "check_process_maps io root s = Inr r"
    using check_process_maps_ok [OF assms(1)] by blast
  have cnt: "read_deny_count (tree s) (objs s) (deny_count_pin root) = Inr (of_nat (length es))"
    using pins(2) cur by (auto simp: holds_current_def intro: count_is_read)
  have nz: "(of_nat (length es) :: u32) \<noteq> 0"
    using cur by (auto simp: holds_current_def unat_len_entries dest: arg_cong [of _ _ unat])
  obtain lm cm where m: "objs s i = Some lm" "matches_expected (mo_info lm) (the (expected_abi PATH_DENY_LIST_MAP))"
    "objs s j = Some cm" "matches_expected (mo_info cm) (the (expected_abi PATH_DENY_COUNT_MAP))"
    using cur by (auto simp: holds_current_def current_map_def count_is_def)
  then have "classify_layouts (mo_info lm) (mo_info cm) = PinsCompatible"
    using legacy_not_current by (auto simp: classify_layouts_def Let_def)
  with m pins sel r cnt nz show ?thesis
    by (cases d) (simp_all add: assess_pin_abi_def Let_def map_info_def pinned_map_def)
qed

end

text \<open>A staging name that is still free; the agent tries 1025 of them.\<close>

definition staging_room :: "pin_path \<Rightarrow> pin_tree \<Rightarrow> bool" where
  "staging_room root t \<longleftrightarrow> list_ex (\<lambda>k. t (join root (LEGACY_ABI_DIR_PREFIX @ show_nat k)) = None) [0..<1025]"

definition fully_staged :: "pin_path \<Rightarrow> PathDenyEntry list \<Rightarrow> pin_tree \<Rightarrow> map_store \<Rightarrow> bool" where
  "fully_staged root es t objs \<longleftrightarrow>
     pin_base root t objs \<and> (\<exists>d. legacy_staged root d es t objs) \<and>
     t (deny_list_pin root) = None \<and> t (deny_count_pin root) = None"

lemma no_deny_pins_upd:
  assumes "no_deny_pins root t ds" "\<And>d. staging_dir root d \<Longrightarrow> d \<notin> ds' \<Longrightarrow> d \<notin> ds \<and>
     t' (deny_list_pin d) = t (deny_list_pin d) \<and> t' (deny_count_pin d) = t (deny_count_pin d)"
  shows "no_deny_pins root t' ds'"
  using assms by (simp add: no_deny_pins_def)

lemma fully_staged_proc_kept:
  assumes "fully_staged root es t objs" "proc_kept root t objs t' objs'"
  shows "fully_staged root es t' objs'"
  using assms unfolding fully_staged_def proc_kept_def
  by (auto intro: phases_proc_frame) (simp_all add: proc_frame_def)

lemma free_legacy_name_Inr:
  "free_legacy_name io s root existing n = Inr name \<Longrightarrow> n \<le> 1024 \<Longrightarrow>
   legacy_abi_numeric_suffix name \<noteq> None \<and> \<not> io_exists io s (join root name)"
proof (induction io s root existing n rule: free_legacy_name.induct)
  case (1 io s root existing n)
  then show ?case
    by (subst (asm) (2) free_legacy_name.simps)
       (auto simp: Let_def legacy_name_suffix split: if_splits)
qed

lemma free_legacy_name_total:
  "n \<le> k \<Longrightarrow> k \<le> 1024 \<Longrightarrow> join root (LEGACY_ABI_DIR_PREFIX @ show_nat k) \<notin> set existing \<Longrightarrow>
   \<not> io_exists io s (join root (LEGACY_ABI_DIR_PREFIX @ show_nat k)) \<Longrightarrow>
   \<exists>name. free_legacy_name io s root existing n = Inr name"
proof (induction io s root existing n rule: free_legacy_name.induct)
  case (1 io s root existing n)
  show ?case
  proof (cases "n = k")
    case True
    with 1 show ?thesis by (subst free_legacy_name.simps) (simp add: Let_def)
  next
    case False
    with 1 show ?thesis by (subst free_legacy_name.simps) (auto simp: Let_def)
  qed
qed

context pin_io
begin

lemma next_name_ok:
  assumes "tree s root = Some DirNode"
  shows "(\<exists>name. next_legacy_dir_name io root s = Inr name \<and> legacy_abi_numeric_suffix name \<noteq> None \<and>
            tree s (join root name) = None) \<or>
         (\<exists>e. next_legacy_dir_name io root s = Inl e) \<and> \<not> staging_room root (tree s)"
proof -
  obtain ds where ds: "list_legacy_abi_dirs io root s = Inr ds"
    "set ds = {d. staging_dir root d \<and> tree s d = Some DirNode}"
    using list_legacy_abi_dirs_ok [OF assms] by blast
  show ?thesis
  proof (cases "free_legacy_name io s root ds 0")
    case (Inl e)
    have "\<not> staging_room root (tree s)"
    proof
      assume "staging_room root (tree s)"
      then obtain k where k: "k < 1025" "tree s (join root (LEGACY_ABI_DIR_PREFIX @ show_nat k)) = None"
        by (auto simp: staging_room_def list_ex_iff)
      then have "\<exists>name. free_legacy_name io s root ds 0 = Inr name"
        by (intro free_legacy_name_total [of 0 k]) (auto simp: ds(2))
      with Inl show False by simp
    qed
    with Inl ds(1) show ?thesis by (simp add: next_legacy_dir_name_def)
  next
    case (Inr name)
    with free_legacy_name_Inr [OF Inr] ds(1) show ?thesis by (simp add: next_legacy_dir_name_def)
  qed
qed

text \<open>The two renames of the stage.\<close>

lemma rename_count_ends:
  assumes base: "pin_base root (tree s) (objs s)" and leg: "legacy_intact root es (tree s) (objs s)"
    and d: "staging_dir root d" "tree s d = Some DirNode"
  shows "ends_in (io_rename io (deny_count_pin root) (deny_count_pin d) s)
           (\<lambda>_ s'. pin_base root (tree s') (objs s') \<and> legacy_half_staged root d es (tree s') (objs s') \<and> objs s' = objs s)
           (\<lambda>s'. \<not> live \<and> tree s' = tree s \<and> objs s' = objs s)"
proof -
  obtain l c where l: "tree s (deny_list_pin root) = Some (MapPin l)"
    and c: "tree s (deny_count_pin root) = Some (MapPin c)" and h: "holds_legacy (objs s) l c es"
    and nd: "no_deny_pins root (tree s) {}"
    using leg by (auto simp: legacy_intact_def)
  have n: "tree s (deny_list_pin d) = None" "tree s (deny_count_pin d) = None"
    using nd d(1) by (simp_all add: no_deny_pins_def)
  show ?thesis
  proof (rule ends_in_mono [OF rename [OF c]])
    show "tree s (butlast (deny_count_pin d)) = Some DirNode" unfolding butlast_join by (rule d)
  next
    fix u :: unit and s'
    assume s': "tree s' = (tree s)(deny_count_pin root := None, deny_count_pin d \<mapsto> MapPin c) \<and> objs s' = objs s"
    have "pin_base root (tree s') (objs s)"
      by (rule base_no_proc [OF base]) (use s' d in auto)
    moreover have "no_deny_pins root (tree s') {d}"
      by (rule no_deny_pins_upd [OF nd]) (use s' d in auto)
    ultimately show "pin_base root (tree s') (objs s') \<and> legacy_half_staged root d es (tree s') (objs s') \<and> objs s' = objs s"
      using s' d l n h by (simp add: legacy_half_staged_def)
  qed (use n d in auto)
qed

lemma rename_list_ends:
  assumes base: "pin_base root (tree s) (objs s)" and leg: "legacy_half_staged root d es (tree s) (objs s)"
  shows "ends_in (io_rename io (deny_list_pin root) (deny_list_pin d) s)
           (\<lambda>_ s'. fully_staged root es (tree s') (objs s') \<and> legacy_staged root d es (tree s') (objs s') \<and> objs s' = objs s)
           (\<lambda>s'. \<not> live \<and> tree s' = tree s \<and> objs s' = objs s)"
proof -
  obtain l c where l: "tree s (deny_list_pin root) = Some (MapPin l)"
    and c: "tree s (deny_count_pin d) = Some (MapPin c)" and h: "holds_legacy (objs s) l c es"
    and nd: "no_deny_pins root (tree s) {d}" and d: "staging_dir root d" "tree s d = Some DirNode"
    and n: "tree s (deny_count_pin root) = None" "tree s (deny_list_pin d) = None"
    using leg by (auto simp: legacy_half_staged_def)
  show ?thesis
  proof (rule ends_in_mono [OF rename [OF l]])
    show "tree s (butlast (deny_list_pin d)) = Some DirNode" unfolding butlast_join by (rule d)
  next
    fix u :: unit and s'
    assume s': "tree s' = (tree s)(deny_list_pin root := None, deny_list_pin d \<mapsto> MapPin l) \<and> objs s' = objs s"
    have "pin_base root (tree s') (objs s)"
      by (rule base_no_proc [OF base]) (use s' d in auto)
    moreover have "no_deny_pins root (tree s') {d}"
      by (rule no_deny_pins_upd [OF nd]) (use s' d in auto)
    moreover from this have "legacy_staged root d es (tree s') (objs s)"
      using s' d c h by (simp add: legacy_staged_def)
    ultimately show "fully_staged root es (tree s') (objs s') \<and> legacy_staged root d es (tree s') (objs s') \<and> objs s' = objs s"
      using s' d n by (auto simp: fully_staged_def)
  qed (use n d in auto)
qed

lemma stage_ends:
  assumes base: "pin_base root (tree s) (objs s)" and leg: "legacy_intact root es (tree s) (objs s)"
  shows "ends_in (stage_legacy_deny_pins io root s)
           (\<lambda>_ s'. fully_staged root es (tree s') (objs s') \<and> objs s' = objs s)
           (\<lambda>s'. (live \<longrightarrow> \<not> staging_room root (tree s)) \<and> migrating root es (tree s') (objs s') \<and> objs s' = objs s)"
    (is "ends_in _ ?Q ?R")
proof -
  note here = migrating.intact [OF base leg]
  consider (free) name where "next_legacy_dir_name io root s = Inr name" "legacy_abi_numeric_suffix name \<noteq> None"
      "tree s (join root name) = None"
    | (full) e where "next_legacy_dir_name io root s = Inl e" "\<not> staging_room root (tree s)"
    using next_name_ok [OF base_root [OF base]] by blast
  then show ?thesis
  proof cases
    case full
    with here show ?thesis by (simp add: stage_legacy_deny_pins_def)
  next
    case (free name)
    define d where "d = join root name"
    have d: "staging_dir root d" "tree s d = None" using free by (simp_all add: d_def)
    show ?thesis
      unfolding stage_legacy_deny_pins_def free(1) Let_def d_def [symmetric] sum.case
    proof (rule ends_in_then [OF ends_in_mono [OF create_below [OF base, of name, folded d_def]]])
      fix u :: unit and s1
      assume s1: "tree s1 = (tree s)(d := Some DirNode) \<and> objs s1 = objs s"
      have base1: "pin_base root (tree s1) (objs s)"
        by (rule base_no_proc [OF base]) (use s1 d in auto)
      have "no_deny_pins root (tree s1) {}"
        by (rule no_deny_pins_upd [of root "tree s" "{}"]) (use leg s1 d in \<open>auto simp: legacy_intact_def\<close>)
      then have leg1: "legacy_intact root es (tree s1) (objs s)"
        using leg s1 d(1) by (auto simp: legacy_intact_def)
      then have ne: "\<not> (\<not> io_exists io s1 (deny_list_pin root) \<or> \<not> io_exists io s1 (deny_count_pin root))"
        by (auto simp: legacy_intact_def)
      have o1: "objs s1 = objs s" and d1: "tree s1 d = Some DirNode" using s1 by simp_all
      show "ends_in (if \<not> io_exists io s1 (deny_list_pin root) \<or> \<not> io_exists io s1 (deny_count_pin root)
           then (Inl CanonicalPinsMissing, s1)
           else io_then (io_rename io (deny_count_pin root) (deny_count_pin d) s1) (\<lambda>_ s.
                io_then (io_rename io (deny_list_pin root) (deny_list_pin d) s) (\<lambda>_ s. (Inr d, s)))) ?Q ?R"
        unfolding if_not_P [OF ne]
      proof (rule ends_in_then [OF ends_in_mono [OF rename_count_ends [OF _ _ d(1) d1, of es]]])
        fix u :: unit and s2
        assume s2: "pin_base root (tree s2) (objs s2) \<and> legacy_half_staged root d es (tree s2) (objs s2) \<and> objs s2 = objs s1"
        note here2 = migrating.half_staged [OF conjunct1 [OF s2] conjunct1 [OF conjunct2 [OF s2]]]
        show "ends_in (io_then (io_rename io (deny_list_pin root) (deny_list_pin d) s2) (\<lambda>_ s. (Inr d, s))) ?Q ?R"
          by (rule ends_in_then [OF ends_in_mono [OF rename_list_ends [of root s2 d es]]])
             (use s2 here2 o1 in auto)
      qed (use base1 leg1 o1 migrating.intact [OF base1 leg1] in auto)
    qed (use d here in auto)
  qed
qed

end

text \<open>The state that an interrupted agent leaves and in which the staged copy is complete.\<close>

definition resumable :: "pin_path \<Rightarrow> pin_path \<Rightarrow> PathDenyEntry list \<Rightarrow> pin_tree \<Rightarrow> map_store \<Rightarrow> bool" where
  "resumable root d es t objs \<longleftrightarrow>
     pin_base root t objs \<and> legacy_staged root d es t objs \<and> fresh_list root t objs \<and> fresh_count root t objs"

lemma resumable_migrating: "resumable root d es t objs \<Longrightarrow> migrating root es t objs"
  by (auto simp: resumable_def intro: migrating.staged)

lemma fully_staged_resumable:
  "fully_staged root es t objs \<Longrightarrow> legacy_staged root d es t objs \<Longrightarrow> resumable root d es t objs"
  by (simp add: fully_staged_def resumable_def fresh_list_def fresh_count_def)

lemma fully_staged_migrating: "fully_staged root es t objs \<Longrightarrow> migrating root es t objs"
  by (auto simp: fully_staged_def intro!: migrating.staged simp: fresh_list_def fresh_count_def)

context pin_io
begin

lemma create_again:
  assumes "pin_base root (tree s) (objs s)" "staging_dir root d" "tree s d = Some DirNode"
  shows "ends_in (io_create_dir_all io d s)
           (\<lambda>_ s'. tree s' = tree s \<and> objs s' = objs s) (\<lambda>s'. \<not> live \<and> tree s' = tree s \<and> objs s' = objs s)"
proof -
  obtain name where d: "d = join root name" using assms(2) by (auto elim: staging_dirE)
  have "(tree s)(d \<mapsto> DirNode) = tree s" using assms(3) by (simp add: fun_upd_idem)
  then show ?thesis
    using create_below [OF assms(1), of name] assms(3) by (simp add: d)
qed

abbreviation complete_pin :: "pin_path \<Rightarrow> pin_path \<Rightarrow> string \<Rightarrow> 's \<Rightarrow> (pin_error + unit) \<times> 's" where
  "complete_pin root d name s \<equiv>
     (if io_exists io s (join root name) \<and> \<not> io_exists io s (join d name)
      then io_rename io (join root name) (join d name) s else (Inr (), s))"

lemma complete_pins_ends:
  assumes "pin_base root (tree s) (objs s)"
    and "legacy_half_staged root d es (tree s) (objs s) \<or> resumable root d es (tree s) (objs s)"
  shows "ends_in (io_for (complete_pin root d) [PATH_DENY_LIST_MAP, PATH_DENY_COUNT_MAP] s)
           (\<lambda>_ s'. resumable root d es (tree s') (objs s') \<and> objs s' = objs s)
           (\<lambda>s'. \<not> live \<and> migrating root es (tree s') (objs s') \<and> objs s' = objs s)"
proof -
  have stays: "io_for (complete_pin root d) ns s' = (Inr (), s')"
    if "resumable root d es (tree s') (objs s')" "set ns \<subseteq> {PATH_DENY_LIST_MAP, PATH_DENY_COUNT_MAP}" for ns s'
    using that by (induction ns) (auto simp: resumable_def legacy_staged_def)
  show ?thesis
  proof (cases "resumable root d es (tree s) (objs s)")
    case True
    then show ?thesis using stays [OF True, of "[PATH_DENY_LIST_MAP, PATH_DENY_COUNT_MAP]"] by simp
  next
    case False
    with assms(2) have half: "legacy_half_staged root d es (tree s) (objs s)" by simp
    then have first: "complete_pin root d PATH_DENY_LIST_MAP s =
        io_rename io (deny_list_pin root) (deny_list_pin d) s"
      by (auto simp: legacy_half_staged_def)
    show ?thesis
      unfolding io_for.simps(2) [of _ PATH_DENY_LIST_MAP] first
    proof (rule ends_in_then [OF ends_in_mono [OF rename_list_ends [OF assms(1) half]]])
      fix u :: unit and s'
      assume s': "fully_staged root es (tree s') (objs s') \<and> legacy_staged root d es (tree s') (objs s') \<and> objs s' = objs s"
      then have r: "resumable root d es (tree s') (objs s')" by (blast intro: fully_staged_resumable)
      show "ends_in (io_for (complete_pin root d) [PATH_DENY_COUNT_MAP] s')
          (\<lambda>_ s'. resumable root d es (tree s') (objs s') \<and> objs s' = objs s)
          (\<lambda>s'. \<not> live \<and> migrating root es (tree s') (objs s') \<and> objs s' = objs s)"
        by (subst stays [OF r]) (use r s' in auto)
    qed (use migrating.half_staged [OF assms(1) half] in auto)
  qed
qed


lemma complete_ends:
  assumes base: "pin_base root (tree s) (objs s)"
    and ph: "legacy_half_staged root d es (tree s) (objs s) \<or> resumable root d es (tree s) (objs s)"
  shows "ends_in (complete_interrupted_deny_stage io root d s)
           (\<lambda>_ s'. resumable root d es (tree s') (objs s') \<and> objs s' = objs s)
           (\<lambda>s'. \<not> live \<and> migrating root es (tree s') (objs s') \<and> objs s' = objs s)"
proof -
  have d: "staging_dir root d" "tree s d = Some DirNode"
    using ph by (auto simp: legacy_half_staged_def resumable_def legacy_staged_def)
  have here: "migrating root es (tree s) (objs s)"
    using ph base by (auto intro: migrating.half_staged resumable_migrating)
  show ?thesis
    unfolding complete_interrupted_deny_stage_def
  proof (rule ends_in_then [OF ends_in_mono [OF create_again [OF base d]]])
    fix u :: unit and s1 assume s1: "tree s1 = tree s \<and> objs s1 = objs s"
    then show "ends_in (io_for (complete_pin root d) [PATH_DENY_LIST_MAP, PATH_DENY_COUNT_MAP] s1)
        (\<lambda>_ s'. resumable root d es (tree s') (objs s') \<and> objs s' = objs s)
        (\<lambda>s'. \<not> live \<and> migrating root es (tree s') (objs s') \<and> objs s' = objs s)"
      using complete_pins_ends [of root s1 d es] base ph by simp
  qed (use here in auto)
qed

lemma remove_canonical_ends:
  assumes r: "resumable root d es (tree s) (objs s)"
    and name: "name = PATH_DENY_LIST_MAP \<or> name = PATH_DENY_COUNT_MAP"
  shows "ends_in (if io_exists io s (join root name) \<and> io_exists io s (join d name)
                  then io_remove_file io (join root name) s else (Inr (), s))
           (\<lambda>_ s'. resumable root d es (tree s') (objs s') \<and> objs s' = objs s \<and>
                   tree s' = (tree s)(join root name := None))
           (\<lambda>s'. \<not> live \<and> resumable root d es (tree s') (objs s') \<and> objs s' = objs s)"
proof (cases "tree s (join root name)")
  case None
  with r show ?thesis by (simp add: fun_upd_idem)
next
  case (Some n)
  have d: "staging_dir root d" and st: "tree s (join d name) \<noteq> None" and n: "n \<noteq> DirNode"
    using r name Some by (auto simp: resumable_def legacy_staged_def fresh_list_def fresh_count_def)
  have base: "pin_base root ((tree s)(join root name := None)) (objs s)"
    by (rule base_no_proc [of root "tree s"]) (use r name in \<open>auto simp: resumable_def\<close>)
  have "no_deny_pins root ((tree s)(join root name := None)) {d}"
    by (rule no_deny_pins_upd [of root "tree s" "{d}"]) (use r in \<open>auto simp: resumable_def legacy_staged_def\<close>)
  with r d name base have "resumable root d es ((tree s)(join root name := None)) (objs s)"
    by (auto simp: resumable_def legacy_staged_def fresh_list_def fresh_count_def)
  then show ?thesis
    using ends_in_mono [OF remove_file [OF Some n]] r st Some by (auto simp del: fun_upd_apply)
qed

lemma free_canonical_ends:
  assumes "resumable root d es (tree s) (objs s)"
  shows "ends_in (free_canonical_pins io root d s)
           (\<lambda>_ s'. fully_staged root es (tree s') (objs s') \<and> objs s' = objs s)
           (\<lambda>s'. \<not> live \<and> migrating root es (tree s') (objs s') \<and> objs s' = objs s)"
    (is "ends_in _ ?Q ?R")
  unfolding free_canonical_pins_def io_for.simps(2)
proof (rule ends_in_then [OF ends_in_mono [OF remove_canonical_ends [OF assms, of PATH_DENY_LIST_MAP]]])
  fix u :: unit and s1
  assume s1: "resumable root d es (tree s1) (objs s1) \<and> objs s1 = objs s \<and>
     tree s1 = (tree s)(deny_list_pin root := None)"
  show "ends_in (io_then
     (if io_exists io s1 (deny_count_pin root) \<and> io_exists io s1 (deny_count_pin d)
      then io_remove_file io (deny_count_pin root) s1 else (Inr (), s1))
     (\<lambda>_. io_for (\<lambda>name s. if io_exists io s (join root name) \<and> io_exists io s (join d name)
        then io_remove_file io (join root name) s else (Inr (), s)) [])) ?Q ?R"
  proof (rule ends_in_then [OF ends_in_mono [OF remove_canonical_ends [OF conjunct1 [OF s1], of PATH_DENY_COUNT_MAP]]])
    fix u :: unit and s2
    assume s2: "resumable root d es (tree s2) (objs s2) \<and> objs s2 = objs s1 \<and>
       tree s2 = (tree s1)(deny_count_pin root := None)"
    then have "tree s2 (deny_list_pin root) = None" "tree s2 (deny_count_pin root) = None"
      using s1 by simp_all
    with s2 have "fully_staged root es (tree s2) (objs s2)"
      unfolding fully_staged_def resumable_def by blast
    with s1 s2 show "ends_in (io_for (\<lambda>name s. if io_exists io s (join root name) \<and> io_exists io s (join d name)
        then io_remove_file io (join root name) s else (Inr (), s)) [] s2) ?Q ?R"
      by simp
  qed (use s1 resumable_migrating in auto)
qed (use resumable_migrating in auto)

end

text \<open>What the preparation promises to the loader.\<close>

definition prepared ::
  "pin_path \<Rightarrow> PathDenyEntry list \<Rightarrow> DenySeedOverride \<Rightarrow> pin_tree \<Rightarrow> map_store \<Rightarrow> bool" where
  "prepared root es seed t objs \<longleftrightarrow>
     (case seed of
        MigratedEntries entries from_legacy \<Rightarrow> entries = es \<and> from_legacy \<and> fully_staged root es t objs
      | SeedResumePinned \<Rightarrow> pin_base root t objs \<and> policy_seeded root es t objs
      | SeedBootstrap \<Rightarrow> False)"

lemma prepared_proc_kept:
  assumes "prepared root es seed t objs" "proc_kept root t objs t' objs'"
  shows "prepared root es seed t' objs'"
  using assms fully_staged_proc_kept [OF _ assms(2)]
  by (auto simp: prepared_def proc_kept_def split: DenySeedOverride.splits intro: phases_proc_frame)

lemma prepared_migrating: "prepared root es seed t objs \<Longrightarrow> migrating root es t objs"
  by (auto simp: prepared_def split: DenySeedOverride.splits intro: fully_staged_migrating migrating.seeded)

lemma prepared_base: "prepared root es seed t objs \<Longrightarrow> pin_base root t objs"
  by (auto simp: prepared_def fully_staged_def split: DenySeedOverride.splits)

context pin_io
begin

lemma recreate_prepared:
  assumes "prepared root es seed (tree s) (objs s)" "\<And>procs. seed' procs = (seed, f procs)"
  shows "ends_in (io_then (recreate_mismatched_process_maps io root s) (\<lambda>procs s. (Inr (seed' procs), s)))
           (\<lambda>r s'. prepared root es (fst r) (tree s') (objs s') \<and> objs s' = objs s)
           (\<lambda>s'. \<not> live \<and> migrating root es (tree s') (objs s') \<and> objs s' = objs s)"
proof (rule ends_in_then [OF ends_in_mono [OF recreate_ends [OF prepared_base [OF assms(1)]]]])
  fix s' assume "\<not> live \<and> kept root s s'"
  then show "\<not> live \<and> migrating root es (tree s') (objs s') \<and> objs s' = objs s"
    using migrating_proc_kept [OF prepared_migrating [OF assms(1)]] by (auto simp: proc_kept_def)
next
  fix procs s' assume "kept root s s'"
  then show "ends_in (Inr (seed' procs), s') (\<lambda>r s'. prepared root es (fst r) (tree s') (objs s') \<and> objs s' = objs s)
      (\<lambda>s'. \<not> live \<and> migrating root es (tree s') (objs s') \<and> objs s' = objs s)"
    using prepared_proc_kept [OF assms(1)] by (auto simp: proc_kept_def assms(2))
qed

lemma resume_readable_ends:
  assumes r: "resumable root d es (tree s) (objs s)"
  shows "ends_in (resume_readable io root d es s)
           (\<lambda>r s'. fst r = MigratedEntries es True \<and> fully_staged root es (tree s') (objs s') \<and> objs s' = objs s)
           (\<lambda>s'. \<not> live \<and> migrating root es (tree s') (objs s') \<and> objs s' = objs s)"
proof -
  have "read_deny_count (tree s) (objs s) (deny_count_pin root) = Inr 0"
    if "tree s (deny_count_pin root) \<noteq> None"
    using r that by (auto simp: resumable_def fresh_count_def intro: count_is_read)
  then have "resume_readable io root d es s =
      io_then (free_canonical_pins io root d s) (\<lambda>_ s. (Inr (MigratedEntries es True, [ResumedMigration]), s))"
    by (auto simp: resume_readable_def both_counts_def)
  then show ?thesis
    by (simp only:) (rule ends_in_then [OF free_canonical_ends [OF r]], auto)
qed

lemma resume_migration_ends:
  assumes base: "pin_base root (tree s) (objs s)"
    and ph: "legacy_half_staged root d es (tree s) (objs s) \<or> resumable root d es (tree s) (objs s)"
  shows "ends_in (resume_migration io root d s)
           (\<lambda>r s'. prepared root es (fst r) (tree s') (objs s') \<and> objs s' = objs s)
           (\<lambda>s'. \<not> live \<and> migrating root es (tree s') (objs s') \<and> objs s' = objs s)"
    (is "ends_in _ ?Q ?R")
  unfolding resume_migration_def
proof (rule ends_in_then [OF complete_ends [OF base ph]])
  fix u :: unit and s1
  assume s1: "resumable root d es (tree s1) (objs s1) \<and> objs s1 = objs s"
  then obtain l c where pins: "tree s1 (deny_list_pin d) = Some (MapPin l)"
      "tree s1 (deny_count_pin d) = Some (MapPin c)" "holds_legacy (objs s1) l c es"
    by (auto simp: resumable_def legacy_staged_def)
  have locs: "resolve_deny_pin_locations io root d s1 =
      Inr \<lparr>loc_list = deny_list_pin d, loc_count = deny_count_pin d\<rparr>"
    using pins by (simp add: resolve_deny_pin_locations_def locate_pin_def)
  have read: "io_read_legacy_deny_entries_at io s1 (deny_list_pin d) (deny_count_pin d) = Inr es"
    using holds_legacy_read [OF pins(3), of "tree s1"] pins(1,2) by simp
  let ?k = "\<lambda>(seed, results) s. io_then (recreate_mismatched_process_maps io root s)
      (\<lambda>procs s. (Inr (seed, results @ report_recreated procs), s))"
  have "ends_in (io_then (resume_readable io root d es s1) ?k) ?Q ?R"
  proof (rule ends_in_then [OF ends_in_mono [OF resume_readable_ends [OF conjunct1 [OF s1]]]])
    fix r :: "DenySeedOverride \<times> MigrationResult list" and s2
    assume h: "fst r = MigratedEntries es True \<and> fully_staged root es (tree s2) (objs s2) \<and> objs s2 = objs s1"
    then have "prepared root es (fst r) (tree s2) (objs s2)" by (auto simp: prepared_def)
    then show "ends_in (?k r s2) ?Q ?R"
      unfolding case_prod_beta
      by (rule ends_in_mono [OF recreate_prepared [OF _ refl]]) (use h s1 in auto)
  qed (use s1 in auto)
  then show "ends_in (case resolve_deny_pin_locations io root d s1 of Inl e \<Rightarrow> (Inl e, s1)
      | Inr locs \<Rightarrow> io_then
           (case io_read_legacy_deny_entries_at io s1 (loc_list locs) (loc_count locs) of
              Inr entries \<Rightarrow> resume_readable io root d entries s1
            | Inl _ \<Rightarrow> resume_unreadable io root d s1) ?k) ?Q ?R"
    unfolding locs by (simp only: sum.case DenyPinLocations.simps read)
qed

lemma migrate_legacy_ends:
  assumes base: "pin_base root (tree s) (objs s)" and leg: "legacy_intact root es (tree s) (objs s)"
  shows "ends_in (migrate_legacy io root s)
           (\<lambda>r s'. prepared root es (fst r) (tree s') (objs s') \<and> objs s' = objs s)
           (\<lambda>s'. (live \<longrightarrow> \<not> staging_room root (tree s)) \<and> migrating root es (tree s') (objs s') \<and> objs s' = objs s)"
    (is "ends_in _ ?Q ?R")
proof -
  have read: "io_read_legacy_deny_entries_at io s (deny_list_pin root) (deny_count_pin root) = Inr es"
    using leg holds_legacy_read [of "objs s" _ _ es "tree s"] by (auto simp: legacy_intact_def)
  show ?thesis
    unfolding migrate_legacy_def read sum.case
  proof (rule ends_in_then [OF stage_ends [OF base leg]])
    fix d s1
    assume s1: "fully_staged root es (tree s1) (objs s1) \<and> objs s1 = objs s"
    then have "prepared root es (MigratedEntries es True) (tree s1) (objs s1)" by (auto simp: prepared_def)
    then show "ends_in (io_then (recreate_mismatched_process_maps io root s1)
        (\<lambda>procs s. (Inr (MigratedEntries es True, report_recreated procs @ [Migrated]), s))) ?Q ?R"
      by (rule ends_in_mono [OF recreate_prepared [OF _ refl]]) (use s1 in auto)
  qed
qed

lemma prepare_ends:
  assumes "migrating root es (tree s) (objs s)"
  shows "ends_in (prepare_pin_root_for_load io root s)
           (\<lambda>r s'. prepared root es (fst r) (tree s') (objs s') \<and> objs s' = objs s)
           (\<lambda>s'. (live \<longrightarrow> \<not> staging_room root (tree s)) \<and> migrating root es (tree s') (objs s') \<and> objs s' = objs s)"
  using assms
proof cases
  case intact
  then show ?thesis
    using migrate_legacy_ends [OF intact] by (simp add: prepare_pin_root_for_load_def assess_intact [OF intact])
next
  case (half_staged d)
  then have "assess_pin_abi io root s = Inr (MigrationInProgress d)"
    by (intro assess_resumes) (auto simp: legacy_half_staged_def)
  then have eq: "prepare_pin_root_for_load io root s = resume_migration io root d s"
    by (simp add: prepare_pin_root_for_load_def)
  show ?thesis
    unfolding eq by (rule ends_in_mono [OF resume_migration_ends [OF half_staged(1)]]) (use half_staged(2) in auto)
next
  case (staged d)
  then have r: "resumable root d es (tree s) (objs s)" by (simp add: resumable_def)
  have "assess_pin_abi io root s = Inr (MigrationInProgress d)"
  proof (cases "tree s (deny_list_pin root) = None \<or> tree s (deny_count_pin root) = None")
    case True
    with staged show ?thesis by (intro assess_resumes) (auto simp: legacy_staged_def)
  next
    case False
    with staged obtain i j where "tree s (deny_list_pin root) = Some (MapPin i)"
      "current_map (objs s) PATH_DENY_LIST_MAP i" "tree s (deny_count_pin root) = Some (MapPin j)"
      "count_is (objs s) j 0"
      by (auto simp: fresh_list_def fresh_count_def)
    with staged show ?thesis by (intro assess_poisoned) (auto simp: legacy_staged_def)
  qed
  then have eq: "prepare_pin_root_for_load io root s = resume_migration io root d s"
    by (simp add: prepare_pin_root_for_load_def)
  show ?thesis
    unfolding eq by (rule ends_in_mono [OF resume_migration_ends [OF staged(1)]]) (use r in auto)
next
  case seeded
  have "prepared root es SeedResumePinned (tree s) (objs s)" using seeded by (simp add: prepared_def)
  then show ?thesis
    unfolding prepare_pin_root_for_load_def assess_seeded [OF seeded] sum.case PinAbiState.case
    by (intro ends_in_mono [OF recreate_prepared [OF _ refl]]) auto
qed

end

end
