(* ===== verification/Lsm_Pin.thy ===== *)
theory Lsm_Pin
  imports Pin_Migration
begin

section \<open>Pinning the enforcement link: \<open>lsm_pin.rs\<close>, \<open>bpf_pin.rs\<close> and the boot of \<open>startup.rs\<close>\<close>

text \<open>
  The classification of the pins before the load, the plan for the deny maps after it, the
  handoff from the pinned link of an earlier agent to the one just attached, and the part of
  \<open>startup.rs\<close> that composes them with \<open>pin_abi.rs\<close>. Loading the object and attaching the
  program are calls into aya: the loader is an argument, and so is whether the kernel accepts
  the attach. A link pin is a \<open>LinkPin\<close> node that names the two map objects of its program.
\<close>

definition LSM_LINK_PIN_NAME :: string where
  "LSM_LINK_PIN_NAME = ''neuromesh_lsm_exec_guard_link''"
definition LSM_LINK_PIN_TMP_NAME :: string where
  "LSM_LINK_PIN_TMP_NAME = ''neuromesh_lsm_exec_guard_link_tmp''"
definition PINNED_ENFORCEMENT_MAPS :: "string list" where
  "PINNED_ENFORCEMENT_MAPS = [PATH_DENY_LIST_MAP, PATH_DENY_COUNT_MAP]"

datatype DenyMapSeedPlan = PlanBootstrap | PlanResumePinned u32

datatype EnforcementPinState =
    EnfCold
  | MapsReady bool
  | InconsistentLinkWithoutMaps
  | EnfMigrationInProgress

definition is_file :: "BpfFs \<Rightarrow> pin_path \<Rightarrow> bool" where
  "is_file s p \<longleftrightarrow> (case pin_node s p of None \<Rightarrow> False | Some n \<Rightarrow> n \<noteq> DirNode)"

definition classify_enforcement_pins :: "pin_path \<Rightarrow> BpfFs \<Rightarrow> EnforcementPinState" where
  "classify_enforcement_pins pin_root s =
     (let maps_ok = is_file s (join pin_root PATH_DENY_LIST_MAP) \<and> is_file s (join pin_root PATH_DENY_COUNT_MAP);
          link_ok = is_file s (join pin_root LSM_LINK_PIN_NAME);
          staged = (case select_deny_legacy_dir (RealPinAbiIo (\<lambda>_. None)) pin_root s of
                      Inr (Some _) \<Rightarrow> True | _ \<Rightarrow> False)
      in if staged \<and> \<not> maps_ok then EnfMigrationInProgress
         else if link_ok \<and> \<not> maps_ok then InconsistentLinkWithoutMaps
         else if maps_ok then MapsReady link_ok
         else EnfCold)"

definition deny_map_seed_plan :: "bool \<Rightarrow> u32 \<Rightarrow> pin_error + DenyMapSeedPlan" where
  "deny_map_seed_plan pinned_maps_reused active_count =
     (if \<not> pinned_maps_reused then Inr PlanBootstrap
      else if active_count = 0 then Inl EmptyPinnedCount
      else Inr (PlanResumePinned active_count))"

text \<open>The clock counts from an origin early enough for the subtraction.\<close>

definition policy_state_for_pinned_resume :: "instant \<Rightarrow> PolicySyncState" where
  "policy_state_for_pinned_resume now =
     \<lparr>last_success = now - POLICY_STALE_AFTER - from_secs 1, last_version = ''pinned-resume'', stale = True\<rparr>"

record EnforcementPinPaths =
  ep_list :: pin_path
  ep_count :: pin_path
  ep_link :: pin_path
  ep_link_tmp :: pin_path

definition enforcement_pin_paths :: "pin_path \<Rightarrow> EnforcementPinPaths" where
  "enforcement_pin_paths pin_root =
     \<lparr>ep_list = join pin_root PATH_DENY_LIST_MAP, ep_count = join pin_root PATH_DENY_COUNT_MAP,
      ep_link = join pin_root LSM_LINK_PIN_NAME, ep_link_tmp = join pin_root LSM_LINK_PIN_TMP_NAME\<rparr>"

definition active_deny_count :: "KernelMaps \<Rightarrow> pin_error + u32" where
  "active_deny_count k = ok_or (array_get (PATH_DENY_COUNT k) 0) (NoElement [PATH_DENY_COUNT_MAP])"

subsection \<open>The pin directory\<close>

definition BPFFS_MOUNT :: pin_path where "BPFFS_MOUNT = [''sys'', ''fs'', ''bpf'']"

definition DEFAULT_BPF_PIN_ROOT :: pin_path where
  "DEFAULT_BPF_PIN_ROOT = [''sys'', ''fs'', ''bpf'', ''neuromesh'']"

text \<open>\<open>env\<close> is the path in \<open>NEUROMESH_BPF_PIN_ROOT\<close>, if the variable is set.\<close>

definition pin_root_of :: "pin_path option \<Rightarrow> pin_path" where
  "pin_root_of env = (case env of Some p \<Rightarrow> p | None \<Rightarrow> DEFAULT_BPF_PIN_ROOT)"

definition prepare_pin_directory :: "faults \<Rightarrow> pin_path \<Rightarrow> BpfFs \<Rightarrow> (pin_error + unit) \<times> BpfFs" where
  "prepare_pin_directory flt root s =
     (if \<not> is_dir_node s BPFFS_MOUNT then (Inl BpffsNotMounted, s)
      else fs_call flt (make_dirs root) s)"

text \<open>Loading the visibility object: the process maps are checked before aya reuses them.\<close>

definition load_with_map_pinning ::
  "faults \<Rightarrow> (BpfFs \<Rightarrow> (nat + 'b) \<times> BpfFs) \<Rightarrow> pin_path \<Rightarrow> BpfFs \<Rightarrow> (pin_error + 'b) \<times> BpfFs" where
  "load_with_map_pinning flt loader pin_root s =
     io_then (prepare_pin_directory flt pin_root s) (\<lambda>_ s.
     io_then (recreate_mismatched_process_maps (RealPinAbiIo flt) pin_root s) (\<lambda>_ s.
     apfst (map_sum LoadRefused id) (loader s)))"

subsection \<open>The handoff\<close>

text \<open>Pinning a link: the name must be free and its directory present.\<close>

definition pin_link :: "pin_path \<Rightarrow> nat \<times> nat \<Rightarrow> BpfFs \<Rightarrow> pin_error + BpfFs" where
  "pin_link p maps s =
     (if pin_node s p \<noteq> None then Inl (PinExists p)
      else if \<not> is_dir_node s (butlast p) then Inl (NotADirectory (butlast p))
      else Inr (set_node p (LinkPin (fst maps) (snd maps)) s))"

definition open_link :: "pin_path \<Rightarrow> BpfFs \<Rightarrow> pin_error + nat \<times> nat" where
  "open_link p s =
     (case pin_node s p of
        Some (LinkPin l c) \<Rightarrow> Inr (l, c)
      | Some _ \<Rightarrow> Inl (NotAMap p)
      | None \<Rightarrow> Inl (NoSuchPin p))"

definition remove_if_exists :: "faults \<Rightarrow> pin_path \<Rightarrow> BpfFs \<Rightarrow> (pin_error + unit) \<times> BpfFs" where
  "remove_if_exists flt p s =
     (if pin_node s p \<noteq> None then fs_call flt (remove_pin p) s else (Inr (), s))"

text \<open>\<open>attach\<close> is the error with which the kernel refuses the program, if it does.\<close>

definition attach_and_pin_lsm_fail_closed ::
  "faults \<Rightarrow> nat option \<Rightarrow> nat \<times> nat \<Rightarrow> pin_path \<Rightarrow> BpfFs \<Rightarrow> (pin_error + nat \<times> nat) \<times> BpfFs" where
  "attach_and_pin_lsm_fail_closed flt attach prog pin_root s =
     io_then (prepare_pin_directory flt pin_root s) (\<lambda>_ s.
     let paths = enforcement_pin_paths pin_root in
     io_then (remove_if_exists flt (ep_link_tmp paths) s) (\<lambda>_ s.
     case attach of
       Some e \<Rightarrow> (Inl (AttachRefused e), s)
     | None \<Rightarrow>
         io_then (fs_call flt (pin_link (ep_link_tmp paths) prog) s) (\<lambda>_ s.
         io_then (remove_if_exists flt (ep_link paths) s) (\<lambda>_ s.
         io_then (fs_call flt (move_node (ep_link_tmp paths) (ep_link paths)) s) (\<lambda>_ s.
         (open_link (ep_link paths) s, s))))))"

subsection \<open>The boot\<close>

text \<open>Opening the loaded maps as typed arrays, and what a write through them leaves behind.\<close>

definition deny_slots :: "pin_path \<Rightarrow> MapObject \<Rightarrow> pin_error + PathDenyEntry list" where
  "deny_slots p m =
     (case mo_body m of
        DenyEntries xs \<Rightarrow>
          if typed_array (of_nat PATH_DENY_ENTRY_SIZE) m then Inr xs else Inl (NotAnArray p)
      | _ \<Rightarrow> Inl (NotAnArray p))"

definition open_deny_maps :: "nat \<times> nat \<Rightarrow> BpfFs \<Rightarrow> pin_error + KernelMaps" where
  "open_deny_maps prog s =
     and_then (ok_or (bf_objs s (fst prog)) (PinMissing PATH_DENY_LIST_MAP)) (\<lambda>lm.
     and_then (deny_slots [PATH_DENY_LIST_MAP] lm) (\<lambda>xs.
     and_then (ok_or (bf_objs s (snd prog)) (PinMissing PATH_DENY_COUNT_MAP)) (\<lambda>cm.
     and_then (counter_slots [PATH_DENY_COUNT_MAP] cm) (\<lambda>cs.
     Inr (fresh_maps\<lparr>PATH_DENY_LIST := xs, PATH_DENY_COUNT := cs\<rparr>)))))"

definition save_deny_maps :: "nat \<times> nat \<Rightarrow> KernelMaps \<Rightarrow> BpfFs \<Rightarrow> BpfFs" where
  "save_deny_maps prog k s =
     s\<lparr>bf_store := AList.map_entry (snd prog) (\<lambda>m. m\<lparr>mo_body := Counters (PATH_DENY_COUNT k)\<rparr>)
                     (AList.map_entry (fst prog) (\<lambda>m. m\<lparr>mo_body := DenyEntries (PATH_DENY_LIST k)\<rparr>)
                        (bf_store s))\<rparr>"

definition seed_deny_maps ::
  "faults \<Rightarrow> instant \<Rightarrow> DenySeedOverride \<Rightarrow> KernelMaps \<Rightarrow> (pin_error + PolicySyncState) \<times> KernelMaps" where
  "seed_deny_maps mflt now seed k =
     (let maps_preexisted = (seed = SeedResumePinned) in
      case seed of
        SeedBootstrap \<Rightarrow> apfst (map_sum SeedFailed id) (bootstrap_deny_maps mflt now k)
      | SeedResumePinned \<Rightarrow>
          (case and_then (active_deny_count k) (deny_map_seed_plan maps_preexisted) of
             Inl e \<Rightarrow> (Inl e, k)
           | Inr PlanBootstrap \<Rightarrow> apfst (map_sum SeedFailed id) (bootstrap_deny_maps mflt now k)
           | Inr (PlanResumePinned count) \<Rightarrow> (Inr (policy_state_for_pinned_resume now), k))
      | MigratedEntries entries from_legacy \<Rightarrow>
          (case apply_deny_entries mflt entries k of
             (Inl e, k') \<Rightarrow> (Inl (SeedFailed e), k')
           | (Inr _, k') \<Rightarrow> (Inr (policy_state_for_pinned_resume now), k')))"

definition seed_pinned_maps ::
  "faults \<Rightarrow> instant \<Rightarrow> DenySeedOverride \<Rightarrow> nat \<times> nat \<Rightarrow> BpfFs \<Rightarrow> (pin_error + PolicySyncState) \<times> BpfFs" where
  "seed_pinned_maps mflt now seed prog s =
     (case open_deny_maps prog s of
        Inl e \<Rightarrow> (Inl e, s)
      | Inr k \<Rightarrow> (case seed_deny_maps mflt now seed k of (r, k') \<Rightarrow> (r, save_deny_maps prog k' s)))"

text \<open>What decides the course of a boot: failing calls, the loader, the attach, the clock.\<close>

record BootEnv =
  be_faults :: faults
  be_map_faults :: faults
  be_load :: "BpfFs \<Rightarrow> (nat + nat \<times> nat) \<times> BpfFs"
  be_attach :: "nat option"
  be_now :: instant

definition boot_enforcement ::
  "BootEnv \<Rightarrow> pin_path \<Rightarrow> BpfFs \<Rightarrow> (pin_error + PolicySyncState \<times> MigrationResult list) \<times> BpfFs" where
  "boot_enforcement env pin_root s =
     (let flt = be_faults env; io = RealPinAbiIo flt in
      io_then (prepare_pin_directory flt pin_root s) (\<lambda>_ s.
      io_then (prepare_pin_root_for_load io pin_root s) (\<lambda>(seed, results) s.
      if classify_enforcement_pins pin_root s = InconsistentLinkWithoutMaps then (Inl InconsistentPins, s)
      else io_then (apfst (map_sum LoadRefused id) (be_load env s)) (\<lambda>prog s.
           io_then (seed_pinned_maps (be_map_faults env) (be_now env) seed prog s) (\<lambda>state s.
           io_then (attach_and_pin_lsm_fail_closed flt (be_attach env) prog pin_root s) (\<lambda>_ s.
           io_then (cleanup_legacy_abi_dirs io pin_root s) (\<lambda>_ s.
           io_then (cleanup_proc_abi_dirs io pin_root s) (\<lambda>_ s.
           (Inr (state, results), s)))))))))"

subsection \<open>The handoff never drops the last link\<close>

definition is_link :: "PinNode option \<Rightarrow> bool" where
  "is_link n \<longleftrightarrow> (case n of Some (LinkPin l c) \<Rightarrow> True | _ \<Rightarrow> False)"

text \<open>A program is attached to the exec hook as long as a link is pinned.\<close>

definition enforcing :: "BpfFs \<Rightarrow> bool" where
  "enforcing s \<longleftrightarrow> list_ex (\<lambda>p. is_link (pin_node s p)) (map fst (bf_nodes s))"

lemma is_link_iff: "is_link n \<longleftrightarrow> (\<exists>l c. n = Some (LinkPin l c))"
  by (cases n) (simp_all add: is_link_def split: PinNode.splits)

lemma enforcing_iff: "enforcing s \<longleftrightarrow> (\<exists>p l c. pin_node s p = Some (LinkPin l c))"
proof
  assume "\<exists>p l c. pin_node s p = Some (LinkPin l c)"
  then obtain p l c where p: "pin_node s p = Some (LinkPin l c)" by blast
  then have "p \<in> fst ` set (bf_nodes s)" by (metis map_of_eq_None_iff option.distinct(1))
  then obtain x where "x \<in> set (bf_nodes s)" "fst x = p" by auto
  with p show "enforcing s"
    by (auto simp: enforcing_def list_ex_iff is_link_iff intro!: bexI [of _ x])
qed (auto simp: enforcing_def list_ex_iff is_link_iff)

abbreviation link_pin :: "pin_path \<Rightarrow> pin_path" where
  "link_pin root \<equiv> join root LSM_LINK_PIN_NAME"

abbreviation link_tmp_pin :: "pin_path \<Rightarrow> pin_path" where
  "link_tmp_pin root \<equiv> join root LSM_LINK_PIN_TMP_NAME"

lemma link_names_apart [simp]:
  "LSM_LINK_PIN_NAME \<noteq> LSM_LINK_PIN_TMP_NAME" "LSM_LINK_PIN_TMP_NAME \<noteq> LSM_LINK_PIN_NAME"
  by (simp_all add: LSM_LINK_PIN_NAME_def LSM_LINK_PIN_TMP_NAME_def)

lemma call_done:
  assumes "fs_call flt f s = (Inr u, s')"
  obtains s0 where "f s0 = Inr s'" "pin_node s0 = pin_node s" "bf_objs s0 = bf_objs s"
  using assms by (auto simp: fs_call_def Let_def split: option.splits sum.splits)

lemma call_refused:
  assumes "fs_call flt f s = (Inl e, s')"
  shows "pin_node s' = pin_node s" "bf_objs s' = bf_objs s"
  using assms by (auto simp: fs_call_def Let_def split: option.splits sum.splits)

lemma prepare_pin_directory_foot:
  "\<not> prefix q root \<Longrightarrow> pin_node (snd (prepare_pin_directory flt root s)) q = pin_node s q"
  by (simp add: prepare_pin_directory_def call_foot)

lemma remove_if_exists_foot: "q \<noteq> p \<Longrightarrow> pin_node (snd (remove_if_exists flt p s)) q = pin_node s q"
  by (simp add: remove_if_exists_def call_foot)

lemma pin_link_done:
  assumes "fs_call flt (pin_link p prog) s = (Inr u, s')"
  shows "pin_node s' = (pin_node s)(p \<mapsto> LinkPin (fst prog) (snd prog))"
  using assms by (elim call_done) (auto simp: pin_link_def split: if_splits)

lemma move_link_done:
  assumes "fs_call flt (move_node a b) s = (Inr u, s')" "pin_node s a = Some n"
  shows "pin_node s' = (pin_node s)(a := None, b \<mapsto> n)"
  using assms by (elim call_done) (auto simp: move_node_def split: if_splits)

text \<open>A state in which one of the two names holds the old link or the new one.\<close>

definition handing_over :: "pin_path \<Rightarrow> PinNode \<Rightarrow> nat \<times> nat \<Rightarrow> pin_tree \<Rightarrow> bool" where
  "handing_over root old prog t \<longleftrightarrow>
     t (link_pin root) = Some old \<or>
     t (link_tmp_pin root) = Some (LinkPin (fst prog) (snd prog)) \<or>
     t (link_pin root) = Some (LinkPin (fst prog) (snd prog))"

lemma attach_and_pin_ends:
  assumes old: "pin_node s (link_pin root) = Some old"
  shows "ends_in (attach_and_pin_lsm_fail_closed flt attach prog root s)
           (\<lambda>m s'. m = prog \<and> pin_node s' (link_pin root) = Some (LinkPin (fst prog) (snd prog)) \<and>
                   pin_node s' (link_tmp_pin root) = None)
           (\<lambda>s'. handing_over root old prog (pin_node s'))"
proof -
  obtain r1 s1 where 1: "prepare_pin_directory flt root s = (r1, s1)" by force
  have o1: "pin_node s1 (link_pin root) = Some old"
    using prepare_pin_directory_foot [of "link_pin root" root flt s] 1 old by simp
  obtain r2 s2 where 2: "remove_if_exists flt (link_tmp_pin root) s1 = (r2, s2)" by force
  have o2: "pin_node s2 (link_pin root) = Some old"
    using remove_if_exists_foot [of "link_pin root" "link_tmp_pin root" flt s1] 2 o1 by simp
  obtain r3 s3 where 3: "fs_call flt (pin_link (link_tmp_pin root) prog) s2 = (r3, s3)" by force
  obtain r4 s4 where 4: "remove_if_exists flt (link_pin root) s3 = (r4, s4)" by force
  obtain r5 s5 where 5: "fs_call flt (move_node (link_tmp_pin root) (link_pin root)) s4 = (r5, s5)" by force
  have t3: "pin_node s3 (link_tmp_pin root) = Some (LinkPin (fst prog) (snd prog))" if "r3 = Inr ()"
    using pin_link_done 3 that by simp
  have o3: "pin_node s3 (link_pin root) = Some old" if "r3 = Inl e" for e
    using call_refused(1) 3 that o2 by metis
  have t4: "pin_node s4 (link_tmp_pin root) = Some (LinkPin (fst prog) (snd prog))" if "r3 = Inr ()"
    using remove_if_exists_foot [of "link_tmp_pin root" "link_pin root" flt s3] 4 t3 [OF that] by simp
  have done5: "pin_node s5 = (pin_node s4)(link_tmp_pin root := None, link_pin root \<mapsto> LinkPin (fst prog) (snd prog))"
    if "r3 = Inr ()" "r5 = Inr ()"
    using move_link_done [of flt _ _ s4 _ s5, OF _ t4] 5 that by simp
  have t5: "pin_node s5 (link_tmp_pin root) = Some (LinkPin (fst prog) (snd prog))" if "r3 = Inr ()" "r5 = Inl e" for e
    using call_refused(1) 5 that t4 by metis
  show ?thesis
    unfolding attach_and_pin_lsm_fail_closed_def 1 enforcement_pin_paths_def Let_def
    using o1 o2 o3 t3 t4 t5 done5
    by (cases r1; cases r2; cases attach; cases r3; cases r4; cases r5)
       (simp_all add: 2 3 4 5 handing_over_def open_link_def)
qed

subsection \<open>What the preparation leaves alone\<close>

definition keeps :: "('s \<Rightarrow> 'v) \<Rightarrow> 's \<Rightarrow> 'r \<times> 's \<Rightarrow> bool" where
  "keeps f s m \<longleftrightarrow> f (snd m) = f s"

lemma keeps_then:
  assumes "keeps f s m" "\<And>x s'. f s' = f s \<Longrightarrow> keeps f s' (g x s')"
  shows "keeps f s (io_then m g)"
proof -
  obtain r s' where m: "m = (r, s')" by force
  show ?thesis using assms by (cases r) (auto simp: m keeps_def)
qed

lemma keeps_here: "keeps f s (r, s)"
  by (simp add: keeps_def)

lemma keeps_if: "keeps f s a \<Longrightarrow> keeps f s b \<Longrightarrow> keeps f s (if P then a else b)"
  by simp

lemma keeps_for:
  assumes "\<And>x s. x \<in> set xs \<Longrightarrow> keeps f s (g x s)"
  shows "keeps f s (io_for g xs s)"
  using assms by (induction xs arbitrary: s) (auto intro!: keeps_then keeps_here)

text \<open>A name in the pin root that is neither a map's nor a staging directory's.\<close>

definition bystander :: "string \<Rightarrow> bool" where
  "bystander x \<longleftrightarrow>
     x \<notin> set proc_names \<and> x \<noteq> PATH_DENY_LIST_MAP \<and> x \<noteq> PATH_DENY_COUNT_MAP \<and>
     legacy_abi_numeric_suffix x = None \<and> \<not> starts_with x PROC_ABI_DIR_PREFIX"

lemma bystander_link [simp]: "bystander LSM_LINK_PIN_NAME" "bystander LSM_LINK_PIN_TMP_NAME"
  by (simp_all add: bystander_def LSM_LINK_PIN_NAME_def LSM_LINK_PIN_TMP_NAME_def pin_names
      legacy_abi_numeric_suffix_def strip_prefix_def starts_with_def)

context pin_io
begin

lemma fold_better_mem:
  "fold (better_dir io s) ds best = Some (n, d) \<Longrightarrow> best = Some (n, d) \<or> d \<in> set ds"
proof (induction ds arbitrary: best)
  case (Cons e ds)
  then have "better_dir io s e best = Some (n, d) \<or> d \<in> set ds" by simp
  then show ?case by (auto simp: better_dir_def split: option.splits if_splits prod.splits)
qed simp

lemma list_legacy_staging:
  assumes "list_legacy_abi_dirs io root s = Inr ds" "d \<in> set ds"
  shows "staging_dir root d"
  using assms unfolding list_legacy_abi_dirs_def
  by (auto simp: set_map_filter_iff split: option.splits if_splits) (metis option.distinct(1) staging_dir_join)

lemma select_staging:
  assumes "select_deny_legacy_dir io root s = Inr (Some d)"
  shows "staging_dir root d"
proof -
  from assms obtain ds n where "list_legacy_abi_dirs io root s = Inr ds" "fold (better_dir io s) ds None = Some (n, d)"
    by (auto simp: select_deny_legacy_dir_def)
  with fold_better_mem show ?thesis by (fastforce intro: list_legacy_staging)
qed

lemma next_name_staging: "next_legacy_dir_name io root s = Inr name \<Longrightarrow> legacy_abi_numeric_suffix name \<noteq> None"
  by (auto simp: next_legacy_dir_name_def dest: free_legacy_name_Inr)

lemma keeps_ops:
  "\<not> prefix q p \<Longrightarrow> keeps (\<lambda>s. tree s q) s (io_create_dir_all io p s)"
  "q \<noteq> a \<Longrightarrow> q \<noteq> b \<Longrightarrow> keeps (\<lambda>s. tree s q) s (io_rename io a b s)"
  "q \<noteq> p \<Longrightarrow> keeps (\<lambda>s. tree s q) s (io_remove_file io p s)"
  "\<not> prefix p q \<Longrightarrow> keeps (\<lambda>s. tree s q) s (io_remove_dir_all io p s)"
  by (simp_all add: keeps_def create_foot rename_foot remove_foot remove_dir_foot)

lemma recreate_process_map_keeps:
  assumes "bystander x" "n \<in> set proc_names"
  shows "keeps (\<lambda>s. tree s (join root x)) s (recreate_process_map io root n s)"
proof -
  have ne: "x \<noteq> n" "x \<noteq> PROC_ABI_DIR_PREFIX @ n" using assms by (auto simp: bystander_def)
  let ?s1 = "snd (io_remove_dir_all io (proc_dir root n) s)"
  have "keeps (\<lambda>s. tree s (join root x)) ?s1 (io_then (io_create_dir_all io (proc_dir root n) ?s1) (\<lambda>_ s.
      io_then (io_rename io (join root n) (join (proc_dir root n) n) s) (\<lambda>_ s. (Inr True, s))))"
    using ne by (intro keeps_then keeps_ops keeps_here) auto
  moreover have "tree ?s1 (join root x) = tree s (join root x)"
    using ne by (intro remove_dir_foot) auto
  ultimately show ?thesis
    by (auto simp: recreate_process_map_def Let_def keeps_def split: sum.splits)
qed

lemma recreate_keeps:
  "bystander x \<Longrightarrow> keeps (\<lambda>s. tree s (join root x)) s (recreate_mismatched_process_maps io root s)"
  unfolding recreate_mismatched_process_maps_def
  by (intro keeps_then recreate_process_map_keeps keeps_here) auto

lemma stage_keeps:
  assumes "bystander x"
  shows "keeps (\<lambda>s. tree s (join root x)) s (stage_legacy_deny_pins io root s)"
proof (cases "next_legacy_dir_name io root s")
  case (Inr name)
  with next_name_staging [OF Inr] assms have "name \<noteq> x" by (auto simp: bystander_def)
  with assms show ?thesis
    unfolding stage_legacy_deny_pins_def Inr Let_def sum.case
    by (auto intro!: keeps_then keeps_ops keeps_here simp: bystander_def)
qed (simp add: stage_legacy_deny_pins_def keeps_here)

lemma resume_migration_keeps:
  assumes "bystander x" "staging_dir root d"
  shows "keeps (\<lambda>s. tree s (join root x)) s (resume_migration io root d s)"
proof -
  have d: "d \<noteq> join root x" "\<not> prefix (join root x) d"
    using assms by (auto simp: bystander_def elim!: staging_dirE)
  have x: "x \<noteq> PATH_DENY_LIST_MAP" "x \<noteq> PATH_DENY_COUNT_MAP" using assms by (simp_all add: bystander_def)
  have free: "keeps (\<lambda>s. tree s (join root x)) s' (free_canonical_pins io root d s')" for s'
    unfolding free_canonical_pins_def using x by (intro keeps_for keeps_if keeps_ops keeps_here) auto
  have read: "keeps (\<lambda>s. tree s (join root x)) s' (resume_readable io root d es s')"
    "keeps (\<lambda>s. tree s (join root x)) s' (resume_unreadable io root d s')" for es s'
    unfolding resume_readable_def resume_unreadable_def
    by (auto intro!: keeps_then keeps_if keeps_here free split: sum.splits)
  have comp: "keeps (\<lambda>s. tree s (join root x)) s (complete_interrupted_deny_stage io root d s)"
    unfolding complete_interrupted_deny_stage_def using x d assms(2)
    by (intro keeps_then keeps_for keeps_if keeps_ops keeps_here) auto
  show ?thesis
    unfolding resume_migration_def using assms(1)
    by (auto intro!: keeps_then [OF comp] keeps_then keeps_here read recreate_keeps split: sum.splits prod.splits)
qed


lemma migrate_legacy_keeps:
  "bystander x \<Longrightarrow> keeps (\<lambda>s. tree s (join root x)) s (migrate_legacy io root s)"
  unfolding migrate_legacy_def
  by (auto intro!: keeps_then stage_keeps recreate_keeps keeps_here split: sum.splits)

lemma assess_staging:
  assumes "assess_pin_abi io root s = Inr (MigrationInProgress d)"
  shows "staging_dir root d"
  using assms unfolding assess_pin_abi_def Let_def classify_layouts_def
  by (auto simp: Let_def split: if_splits option.splits intro: select_staging)

lemma prepare_keeps:
  assumes "bystander x"
  shows "keeps (\<lambda>s. tree s (join root x)) s (prepare_pin_root_for_load io root s)"
proof (cases "assess_pin_abi io root s")
  case (Inr st)
  have "staging_dir root d" if "st = MigrationInProgress d" for d
    using assess_staging Inr that by simp
  with assms show ?thesis
    unfolding prepare_pin_root_for_load_def Inr
    by (cases st) (auto intro!: keeps_then keeps_here recreate_keeps migrate_legacy_keeps resume_migration_keeps)
qed (simp add: prepare_pin_root_for_load_def keeps_here)

lemma cleanup_keeps:
  assumes "bystander x"
  shows "keeps (\<lambda>s. tree s (join root x)) s (cleanup_legacy_abi_dirs io root s)"
    "keeps (\<lambda>s. tree s (join root x)) s (cleanup_proc_abi_dirs io root s)"
proof -
  have 1: "\<not> prefix d (join root x)" if "list_legacy_abi_dirs io root s = Inr ds" "d \<in> set ds" for ds d
    using list_legacy_staging [OF that] assms by (auto simp: bystander_def elim!: staging_dirE)
  show "keeps (\<lambda>s. tree s (join root x)) s (cleanup_legacy_abi_dirs io root s)"
    unfolding cleanup_legacy_abi_dirs_def
    by (auto intro!: keeps_here keeps_for keeps_ops dest: 1 split: sum.splits)
  have 2: "\<not> prefix d (join root x)" if "list_proc_abi_dirs io root s = Inr ds" "d \<in> set ds" for ds d
    using that assms by (auto simp: list_proc_abi_dirs_def bystander_def)
  show "keeps (\<lambda>s. tree s (join root x)) s (cleanup_proc_abi_dirs io root s)"
    unfolding cleanup_proc_abi_dirs_def
    by (auto intro!: keeps_here keeps_for keeps_ops dest: 2 split: sum.splits)
qed

end

end
