(* ===== verification/Boot_Recovery.thy ===== *)
theory Boot_Recovery
  imports Lsm_Pin
begin

section \<open>Booting across interrupted migrations\<close>

text \<open>
  What a sequence of boots does to the pinned policy. The loader is aya's: it reuses a pin
  that exists without looking at its layout, creates and pins a zeroed map where a name is
  free, and touches nothing else.
\<close>

definition FRESH_LIST :: MapObject where
  "FRESH_LIST =
     \<lparr>mo_info = \<lparr>map_type = BPF_MAP_TYPE_ARRAY, key_size = 4, value_size = of_nat PATH_DENY_ENTRY_SIZE,
                 max_entries = of_nat PATH_DENY_MAX_ENTRIES\<rparr>,
      mo_body = DenyEntries (replicate PATH_DENY_MAX_ENTRIES path_deny_entry_default)\<rparr>"

definition FRESH_COUNT :: MapObject where
  "FRESH_COUNT =
     \<lparr>mo_info = \<lparr>map_type = BPF_MAP_TYPE_ARRAY, key_size = 4, value_size = 4, max_entries = 1\<rparr>,
      mo_body = Counters [0]\<rparr>"

definition pin_reused :: "pin_path \<Rightarrow> MapObject \<Rightarrow> BpfFs \<Rightarrow> BpfFs \<Rightarrow> bool" where
  "pin_reused p fresh s s' \<longleftrightarrow>
     (if pin_node s p \<noteq> None then pin_node s' p = pin_node s p
      else pin_node s' p = None \<or>
           (\<exists>i. pin_node s' p = Some (MapPin i) \<and> bf_objs s i = None \<and> bf_objs s' i = Some fresh))"

definition loader_step :: "pin_path \<Rightarrow> BpfFs \<Rightarrow> nat + nat \<times> nat \<Rightarrow> BpfFs \<Rightarrow> bool" where
  "loader_step root s r s' \<longleftrightarrow>
     (\<forall>q. q \<noteq> deny_list_pin root \<and> q \<noteq> deny_count_pin root \<longrightarrow> pin_node s' q = pin_node s q) \<and>
     (\<forall>i. bf_objs s i \<noteq> None \<longrightarrow> bf_objs s' i = bf_objs s i) \<and>
     pin_reused (deny_list_pin root) FRESH_LIST s s' \<and> pin_reused (deny_count_pin root) FRESH_COUNT s s' \<and>
     (\<forall>prog. r = Inr prog \<longrightarrow>
        pin_node s' (deny_list_pin root) = Some (MapPin (fst prog)) \<and>
        pin_node s' (deny_count_pin root) = Some (MapPin (snd prog)))"

definition reuses_pins :: "pin_path \<Rightarrow> (BpfFs \<Rightarrow> (nat + nat \<times> nat) \<times> BpfFs) \<Rightarrow> bool" where
  "reuses_pins root load \<longleftrightarrow> (\<forall>s. loader_step root s (fst (load s)) (snd (load s)))"

text \<open>The loader accepts free names and maps of today's layout.\<close>

definition loads_current :: "pin_path \<Rightarrow> (BpfFs \<Rightarrow> (nat + nat \<times> nat) \<times> BpfFs) \<Rightarrow> bool" where
  "loads_current root load \<longleftrightarrow>
     (\<forall>s. (\<forall>name \<in> {PATH_DENY_LIST_MAP, PATH_DENY_COUNT_MAP}.
             pin_node s (join root name) = None \<or>
             (\<exists>i. pin_node s (join root name) = Some (MapPin i) \<and> current_map (bf_objs s) name i)) \<longrightarrow>
          (\<exists>prog. fst (load s) = Inr prog))"

lemma FRESH_infos [simp]:
  "matches_expected (mo_info FRESH_LIST) (the (expected_abi PATH_DENY_LIST_MAP))"
  "matches_expected (mo_info FRESH_COUNT) (the (expected_abi PATH_DENY_COUNT_MAP))"
  by (simp_all add: FRESH_LIST_def FRESH_COUNT_def matches_expected_def expected_list expected_count)

lemma FRESH_bodies [simp]:
  "mo_body FRESH_LIST = DenyEntries (replicate PATH_DENY_MAX_ENTRIES path_deny_entry_default)"
  "mo_body FRESH_COUNT = Counters [0]"
  by (simp_all add: FRESH_LIST_def FRESH_COUNT_def)

lemma FRESH_apart [simp]: "FRESH_COUNT \<noteq> FRESH_LIST" "FRESH_LIST \<noteq> FRESH_COUNT"
  by (simp_all add: FRESH_LIST_def FRESH_COUNT_def)

subsection \<open>More objects, same policy\<close>

definition extends_store :: "map_store \<Rightarrow> map_store \<Rightarrow> bool" where
  "extends_store objs objs' \<longleftrightarrow> (\<forall>i. objs i \<noteq> None \<longrightarrow> objs' i = objs i)"

lemma extends_store_Some: "extends_store objs objs' \<Longrightarrow> objs i = Some m \<Longrightarrow> objs' i = Some m"
  by (simp add: extends_store_def)

lemma holds_extends:
  assumes "extends_store objs objs'"
  shows "holds_legacy objs l c es \<Longrightarrow> holds_legacy objs' l c es"
    "current_map objs name i \<Longrightarrow> current_map objs' name i"
    "count_is objs c a \<Longrightarrow> count_is objs' c a"
    "holds_current objs l c es \<Longrightarrow> holds_current objs' l c es"
proof -
  note ext = extends_store_Some [OF assms]
  show "holds_legacy objs l c es \<Longrightarrow> holds_legacy objs' l c es"
    unfolding holds_legacy_def by (elim exE conjE, intro exI conjI) (erule ext | assumption)+
  show cur: "current_map objs name i \<Longrightarrow> current_map objs' name i" for name i
    unfolding current_map_def by (elim exE conjE, intro exI conjI) (erule ext | assumption)+
  show cnt: "count_is objs c a \<Longrightarrow> count_is objs' c a" for c a
    unfolding count_is_def by (elim exE conjE, intro exI conjI) (erule ext cur | assumption)+
  show "holds_current objs l c es \<Longrightarrow> holds_current objs' l c es"
    unfolding holds_current_def by (elim exE conjE, intro exI conjI) (assumption | erule ext cur cnt)+
qed

lemma base_extends:
  "pin_base root t objs \<Longrightarrow> (\<And>i. objs i \<noteq> None \<Longrightarrow> objs' i \<noteq> None) \<Longrightarrow> pin_base root t objs'"
  by (rule pin_baseI [where t = t and objs = objs]) (auto simp: proc_pin_ok_def)

subsection \<open>The load\<close>

text \<open>The maps the program runs with, and what is known of the policy at that point.\<close>

definition prog_pinned :: "pin_path \<Rightarrow> nat \<times> nat \<Rightarrow> pin_tree \<Rightarrow> bool" where
  "prog_pinned root prog t \<longleftrightarrow>
     t (deny_list_pin root) = Some (MapPin (fst prog)) \<and> t (deny_count_pin root) = Some (MapPin (snd prog))"

definition loaded ::
  "pin_path \<Rightarrow> PathDenyEntry list \<Rightarrow> DenySeedOverride \<Rightarrow> nat \<times> nat \<Rightarrow> pin_tree \<Rightarrow> map_store \<Rightarrow> bool" where
  "loaded root es seed prog t objs \<longleftrightarrow>
     prog_pinned root prog t \<and>
     (case seed of
        MigratedEntries entries from_legacy \<Rightarrow>
          entries = es \<and> (\<exists>d. resumable root d es t objs) \<and>
          objs (fst prog) = Some FRESH_LIST \<and> objs (snd prog) = Some FRESH_COUNT
      | SeedResumePinned \<Rightarrow> pin_base root t objs \<and> holds_current objs (fst prog) (snd prog) es
      | SeedBootstrap \<Rightarrow> False)"

lemma staging_root [simp]: "\<not> staging_dir root root"
  by (auto elim: staging_dirE)

lemma no_deny_pins_canonical:
  assumes "no_deny_pins root t ds"
    and "\<And>q. q \<noteq> deny_list_pin root \<Longrightarrow> q \<noteq> deny_count_pin root \<Longrightarrow> t' q = t q"
  shows "no_deny_pins root t' ds"
  by (rule no_deny_pins_upd [OF assms(1)]) (auto intro!: assms(2))

lemma load_ends:
  assumes prep: "prepared root es seed (pin_node s) (bf_objs s)" and step: "loader_step root s r s'"
  shows "migrating root es (pin_node s') (bf_objs s')"
    "r = Inr prog \<Longrightarrow> loaded root es seed prog (pin_node s') (bf_objs s')"
proof -
  have frame: "pin_node s' q = pin_node s q" if "q \<noteq> deny_list_pin root" "q \<noteq> deny_count_pin root" for q
    using step that by (simp add: loader_step_def)
  have ext: "extends_store (bf_objs s) (bf_objs s')"
    using step by (simp add: loader_step_def extends_store_def)
  have lp: "pin_reused (deny_list_pin root) FRESH_LIST s s'" and cp: "pin_reused (deny_count_pin root) FRESH_COUNT s s'"
    and pr: "r = Inr prog \<Longrightarrow> prog_pinned root prog (pin_node s')"
    using step by (auto simp: loader_step_def prog_pinned_def)
  have "pin_base root (pin_node s') (bf_objs s)"
    by (rule base_no_proc [OF prepared_base [OF prep]]) (auto intro!: frame)
  then have base: "pin_base root (pin_node s') (bf_objs s')"
    using ext by (auto intro: base_extends simp: extends_store_def)
  have "migrating root es (pin_node s') (bf_objs s') \<and>
      (r = Inr prog \<longrightarrow> loaded root es seed prog (pin_node s') (bf_objs s'))"
  proof (cases seed)
    case SeedBootstrap
    with prep show ?thesis by (simp add: prepared_def)
  next
    case SeedResumePinned
    with prep obtain l c where "pin_node s (deny_list_pin root) = Some (MapPin l)"
      "pin_node s (deny_count_pin root) = Some (MapPin c)" "holds_current (bf_objs s) l c es"
      by (auto simp: prepared_def policy_seeded_def)
    with lp cp have pins: "pin_node s' (deny_list_pin root) = Some (MapPin l)"
      "pin_node s' (deny_count_pin root) = Some (MapPin c)" "holds_current (bf_objs s') l c es"
      by (auto simp: pin_reused_def intro: holds_extends(4) [OF ext])
    then have "policy_seeded root es (pin_node s') (bf_objs s')"
      by (auto simp: policy_seeded_def)
    with base pins pr SeedResumePinned show ?thesis
      by (auto simp: loaded_def prog_pinned_def intro: migrating.seeded)
  next
    case (MigratedEntries entries from_legacy)
    with prep obtain d where d: "legacy_staged root d es (pin_node s) (bf_objs s)"
      and none: "pin_node s (deny_list_pin root) = None" "pin_node s (deny_count_pin root) = None" "entries = es"
      by (auto simp: prepared_def fully_staged_def)
    then have "staging_dir root d" by (simp add: legacy_staged_def)
    then have "legacy_staged root d es (pin_node s') (bf_objs s')"
      using d no_deny_pins_canonical [of root "pin_node s" "{d}" "pin_node s'"] holds_extends(1) [OF ext]
      by (auto simp: legacy_staged_def frame)
    moreover have "fresh_list root (pin_node s') (bf_objs s')" "fresh_count root (pin_node s') (bf_objs s')"
      using lp cp none
      by (auto simp: pin_reused_def fresh_list_def fresh_count_def current_map_def count_is_def)
    ultimately have "resumable root d es (pin_node s') (bf_objs s')"
      using base by (simp add: resumable_def)
    with MigratedEntries pr lp cp none show ?thesis
      by (auto simp: loaded_def prog_pinned_def pin_reused_def intro: resumable_migrating)
  qed
  then show "migrating root es (pin_node s') (bf_objs s')"
    "r = Inr prog \<Longrightarrow> loaded root es seed prog (pin_node s') (bf_objs s')"
    by simp_all
qed

subsection \<open>The seed\<close>

definition seeded_at :: "pin_path \<Rightarrow> PathDenyEntry list \<Rightarrow> nat \<times> nat \<Rightarrow> pin_tree \<Rightarrow> map_store \<Rightarrow> bool" where
  "seeded_at root es prog t objs \<longleftrightarrow>
     pin_base root t objs \<and> prog_pinned root prog t \<and> holds_current objs (fst prog) (snd prog) es"

lemma seeded_at_migrating: "seeded_at root es prog t objs \<Longrightarrow> migrating root es t objs"
  by (auto simp: seeded_at_def prog_pinned_def policy_seeded_def intro: migrating.seeded)

lemma holds_legacy_wf:
  assumes "holds_legacy objs l c es"
  shows "es \<noteq> []" "length es \<le> PATH_DENY_MAX_ENTRIES" "list_all valid_len es"
proof -
  obtain xs a where w: "map widen (take (unat (a :: u32)) xs) = map Some es" "es \<noteq> []"
    "unat a \<le> PATH_DENY_MAX_ENTRIES"
    using assms unfolding holds_legacy_def by blast
  show "es \<noteq> []" by (rule w)
  from w(1) have "length es = length (take (unat a) xs)" by (metis length_map)
  with w(3) show "length es \<le> PATH_DENY_MAX_ENTRIES" by simp
  have "valid_len e" if "e \<in> set es" for e
  proof -
    from that have "Some e \<in> set (map widen (take (unat a) xs))" by (simp add: w(1))
    then obtain x where "widen x = Some e" by auto
    then have "wf_entry e"
      by (auto simp: widen_def Let_def split: if_splits dest: from_prefix_wf)
    then show ?thesis by (rule wf_entry_valid_len)
  qed
  then show "list_all valid_len es" by (simp add: list_all_iff)
qed

text \<open>A write through the program's maps reaches their two objects only.\<close>

definition store_frame :: "nat \<times> nat \<Rightarrow> map_store \<Rightarrow> map_store \<Rightarrow> bool" where
  "store_frame prog objs objs' \<longleftrightarrow> (\<forall>i. i \<noteq> fst prog \<and> i \<noteq> snd prog \<longrightarrow> objs' i = objs i)"

lemma save_deny_maps_nodes [simp]: "pin_node (save_deny_maps prog k s) = pin_node s"
  by (simp add: save_deny_maps_def)

lemma save_deny_maps_objs:
  assumes "bf_objs s (fst prog) = Some lm" "bf_objs s (snd prog) = Some cm" "fst prog \<noteq> snd prog"
  shows "bf_objs (save_deny_maps prog k s) =
    (bf_objs s)(fst prog \<mapsto> lm\<lparr>mo_body := DenyEntries (PATH_DENY_LIST k)\<rparr>,
                snd prog \<mapsto> cm\<lparr>mo_body := Counters (PATH_DENY_COUNT k)\<rparr>)"
  using assms by (simp add: save_deny_maps_def map_of_map_entry fun_eq_iff)

lemma base_store:
  assumes "pin_base root t objs" "objs' = objs(i \<mapsto> a, j \<mapsto> b)"
  shows "pin_base root t objs'"
  by (rule base_extends [OF assms(1)]) (simp add: assms(2))

lemma fresh_maps_saved:
  assumes "resumable root d es t objs" "objs l = Some FRESH_LIST" "objs c = Some FRESH_COUNT"
    and pins: "prog_pinned root (l, c) t"
    and k: "wf_maps k" "PATH_DENY_COUNT k = [0]"
    and objs': "objs' = objs(l \<mapsto> FRESH_LIST\<lparr>mo_body := DenyEntries (PATH_DENY_LIST k)\<rparr>,
                             c \<mapsto> FRESH_COUNT\<lparr>mo_body := Counters (PATH_DENY_COUNT k)\<rparr>)"
  shows "resumable root d es t objs'"
proof -
  obtain l0 c0 where leg: "t (deny_list_pin d) = Some (MapPin l0)" "t (deny_count_pin d) = Some (MapPin c0)"
    "holds_legacy objs l0 c0 es"
    using assms(1) by (auto simp: resumable_def legacy_staged_def)
  have "l \<noteq> c" using assms(2,3) by auto
  have "objs l0 \<noteq> Some FRESH_LIST" "objs l0 \<noteq> Some FRESH_COUNT" "objs c0 \<noteq> Some FRESH_LIST" "objs c0 \<noteq> Some FRESH_COUNT"
    using leg(3) by (auto simp: holds_legacy_def)
  then have "l0 \<notin> {l, c}" "c0 \<notin> {l, c}" using assms(2,3) by auto
  then have "holds_legacy objs' l0 c0 es" using leg(3) by (simp add: holds_legacy_def objs')
  moreover have "current_map objs' PATH_DENY_LIST_MAP l" "count_is objs' c 0"
    using \<open>l \<noteq> c\<close> k(2) by (simp_all add: objs' current_map_def count_is_def)
  moreover have "pin_base root t objs'"
    using assms(1) base_store [OF _ objs'] by (simp add: resumable_def)
  ultimately show ?thesis
    using assms(1) pins leg
    by (auto simp: resumable_def legacy_staged_def fresh_list_def fresh_count_def prog_pinned_def)
qed

lemma seeded_saved:
  assumes "wf_maps k" "es \<noteq> []" "length es \<le> PATH_DENY_MAX_ENTRIES"
    "PATH_DENY_COUNT k = [of_nat (length es)]" "take (length es) (PATH_DENY_LIST k) = es" "l \<noteq> c"
    and objs': "objs' = objs(l \<mapsto> FRESH_LIST\<lparr>mo_body := DenyEntries (PATH_DENY_LIST k)\<rparr>,
                             c \<mapsto> FRESH_COUNT\<lparr>mo_body := Counters (PATH_DENY_COUNT k)\<rparr>)"
  shows "holds_current objs' l c es"
  using assms by (auto simp: holds_current_def current_map_def count_is_def wf_maps_def)

lemma seed_migrated_ends:
  assumes r: "resumable root d es (pin_node s) (bf_objs s)" and pins: "prog_pinned root prog (pin_node s)"
    and f: "bf_objs s (fst prog) = Some FRESH_LIST" "bf_objs s (snd prog) = Some FRESH_COUNT"
  shows "ends_in (seed_pinned_maps mflt now (MigratedEntries es from_legacy) prog s)
           (\<lambda>_ s'. pin_node s' = pin_node s \<and> seeded_at root es prog (pin_node s) (bf_objs s') \<and>
                   store_frame prog (bf_objs s) (bf_objs s'))
           (\<lambda>s'. mflt \<noteq> (\<lambda>_. None) \<and> pin_node s' = pin_node s \<and> migrating root es (pin_node s') (bf_objs s') \<and>
                 store_frame prog (bf_objs s) (bf_objs s'))"
proof -
  obtain l c where lc: "prog = (l, c)" by force
  have ne: "l \<noteq> c" using f by (auto simp: lc)
  have base: "pin_base root (pin_node s) (bf_objs s)" using r by (simp add: resumable_def)
  obtain l0 c0 where "holds_legacy (bf_objs s) l0 c0 es" using r by (auto simp: resumable_def legacy_staged_def)
  note es = holds_legacy_wf [OF this]
  have "fresh_maps\<lparr>PATH_DENY_LIST := replicate PATH_DENY_MAX_ENTRIES path_deny_entry_default, PATH_DENY_COUNT := [0]\<rparr>
     = fresh_maps" by (simp add: fresh_maps_def)
  then have op: "open_deny_maps prog s = Inr fresh_maps"
    using f by (simp add: open_deny_maps_def deny_slots_def counter_slots_def typed_array_def)
       (simp add: FRESH_LIST_def FRESH_COUNT_def)
  obtain r1 k where a: "apply_deny_entries mflt es fresh_maps = (r1, k)" by force
  have wf: "wf_maps k" by (rule apply_deny_entries_frame(1) [OF wf_fresh_maps a])
  define objs' where "objs' = bf_objs (save_deny_maps prog k s)"
  have objs': "objs' = (bf_objs s)(l \<mapsto> FRESH_LIST\<lparr>mo_body := DenyEntries (PATH_DENY_LIST k)\<rparr>,
      c \<mapsto> FRESH_COUNT\<lparr>mo_body := Counters (PATH_DENY_COUNT k)\<rparr>)"
    unfolding objs'_def using save_deny_maps_objs [of s prog, OF f] ne by (simp add: lc)
  have frame: "store_frame prog (bf_objs s) objs'" by (simp add: store_frame_def objs' lc)
  have full: "seeded_at root es prog (pin_node s) objs'"
    if "PATH_DENY_COUNT k = [of_nat (length es)]" "take (length es) (PATH_DENY_LIST k) = es"
    using base_store [OF base objs'] pins seeded_saved [OF wf es(1,2) that ne objs']
    by (simp add: seeded_at_def lc)
  have any: "migrating root es (pin_node s) objs'"
  proof (cases "PATH_DENY_COUNT k = [0]")
    case True
    with fresh_maps_saved [OF r, of l c k objs'] f pins wf objs' show ?thesis
      by (auto simp: lc intro: resumable_migrating)
  next
    case False
    with apply_deny_entries_any [OF wf_fresh_maps a] have
      "PATH_DENY_COUNT k = [of_nat (length es)]" "take (length es) (PATH_DENY_LIST k) = es"
      by (auto simp: fresh_maps_def)
    then show ?thesis by (intro seeded_at_migrating [OF full])
  qed
  have run: "seed_pinned_maps mflt now (MigratedEntries es from_legacy) prog s =
      (map_sum SeedFailed (\<lambda>_. policy_state_for_pinned_resume now) r1, save_deny_maps prog k s)"
    by (cases r1) (simp_all add: seed_pinned_maps_def op seed_deny_maps_def Let_def a)
  show ?thesis
  proof (cases r1)
    case (Inl e)
    have "mflt \<noteq> (\<lambda>_. None)"
      using apply_deny_entries_progress [OF wf_fresh_maps _ es, of mflt] a Inl by auto
    with Inl any frame show ?thesis by (simp add: run objs'_def)
  next
    case (Inr u)
    note ok = apply_deny_entries_ok [OF wf_fresh_maps a [unfolded Inr]]
    have "take (length es) (PATH_DENY_LIST k) = es" by (simp add: ok(5))
    from full [OF ok(4) this] frame Inr show ?thesis by (simp add: run objs'_def)
  qed
qed

lemma seed_resume_ends:
  assumes "seeded_at root es prog (pin_node s) (bf_objs s)"
  shows "ends_in (seed_pinned_maps mflt now SeedResumePinned prog s)
           (\<lambda>st s'. st = policy_state_for_pinned_resume now \<and> pin_node s' = pin_node s \<and> bf_objs s' = bf_objs s) (\<lambda>_. False)"
proof -
  obtain lm cm xs where m: "bf_objs s (fst prog) = Some lm" "bf_objs s (snd prog) = Some cm"
    "matches_expected (mo_info lm) (the (expected_abi PATH_DENY_LIST_MAP))"
    "matches_expected (mo_info cm) (the (expected_abi PATH_DENY_COUNT_MAP))"
    "mo_body lm = DenyEntries xs" "mo_body cm = Counters [of_nat (length es)]"
    and es: "es \<noteq> []" "length es \<le> PATH_DENY_MAX_ENTRIES"
    using assms by (auto simp: seeded_at_def holds_current_def current_map_def count_is_def)
  let ?k = "fresh_maps\<lparr>PATH_DENY_LIST := xs, PATH_DENY_COUNT := [of_nat (length es)]\<rparr>"
  have op: "open_deny_maps prog s = Inr ?k"
    using m by (simp add: open_deny_maps_def deny_slots_def counter_slots_def typed_array_def matches_expected_def
        expected_list expected_count)
  have nz: "(of_nat (length es) :: u32) \<noteq> 0"
    using es by (auto simp: unat_len_entries dest: arg_cong [of _ _ unat])
  have ne: "fst prog \<noteq> snd prog" using m by auto
  have "seed_deny_maps mflt now SeedResumePinned ?k = (Inr (policy_state_for_pinned_resume now), ?k)"
    using nz by (simp add: seed_deny_maps_def active_deny_count_def array_get_def deny_map_seed_plan_def)
  then have run: "seed_pinned_maps mflt now SeedResumePinned prog s =
      (Inr (policy_state_for_pinned_resume now), save_deny_maps prog ?k s)"
    by (simp add: seed_pinned_maps_def op)
  have "lm\<lparr>mo_body := DenyEntries xs\<rparr> = lm" "cm\<lparr>mo_body := Counters [of_nat (length es)]\<rparr> = cm"
    using m(5,6) by simp_all
  then have "bf_objs (save_deny_maps prog ?k s) = bf_objs s"
    using m(1,2) ne by (simp add: save_deny_maps_objs fun_eq_iff)
  then show ?thesis by (simp add: run)
qed

lemma seed_ends:
  assumes "loaded root es seed prog (pin_node s) (bf_objs s)"
  shows "ends_in (seed_pinned_maps mflt now seed prog s)
           (\<lambda>_ s'. pin_node s' = pin_node s \<and> seeded_at root es prog (pin_node s') (bf_objs s'))
           (\<lambda>s'. mflt \<noteq> (\<lambda>_. None) \<and> pin_node s' = pin_node s \<and> migrating root es (pin_node s') (bf_objs s'))"
proof (cases seed)
  case SeedBootstrap
  with assms show ?thesis by (simp add: loaded_def)
next
  case SeedResumePinned
  with assms have at: "seeded_at root es prog (pin_node s) (bf_objs s)" by (simp add: loaded_def seeded_at_def)
  show ?thesis
    unfolding SeedResumePinned by (rule ends_in_mono [OF seed_resume_ends [OF at]]) (use at in auto)
next
  case (MigratedEntries entries from_legacy)
  with assms obtain d where "resumable root d es (pin_node s) (bf_objs s)" "prog_pinned root prog (pin_node s)"
    "bf_objs s (fst prog) = Some FRESH_LIST" "bf_objs s (snd prog) = Some FRESH_COUNT" "entries = es"
    by (auto simp: loaded_def)
  then show ?thesis
    unfolding MigratedEntries by (simp only:) (rule ends_in_mono [OF seed_migrated_ends], auto)
qed

subsection \<open>The attach\<close>

definition link_names_ok :: "pin_path \<Rightarrow> pin_tree \<Rightarrow> bool" where
  "link_names_ok root t \<longleftrightarrow> t (link_pin root) \<noteq> Some DirNode \<and> t (link_tmp_pin root) \<noteq> Some DirNode"

definition ready :: "pin_path \<Rightarrow> PathDenyEntry list \<Rightarrow> nat \<times> nat \<Rightarrow> BpfFs \<Rightarrow> bool" where
  "ready root es prog s \<longleftrightarrow> seeded_at root es prog (pin_node s) (bf_objs s) \<and> link_names_ok root (pin_node s)"

lemma ready_root: "ready root es prog s \<Longrightarrow> pin_node s root = Some DirNode"
  by (auto simp: ready_def seeded_at_def dest: base_root)

lemma bystander_area:
  assumes "bystander x"
  shows "\<not> proc_area root (join root x)" "join root x \<noteq> deny_list_pin root" "join root x \<noteq> deny_count_pin root"
    "\<not> prefix (join root x) root"
  using assms by (auto simp: proc_area_def bystander_def starts_with_iff)

lemma ready_upd:
  assumes "ready root es prog s" "bystander x" "v \<noteq> Some DirNode"
    and "pin_node s' = (pin_node s)(join root x := v)" "bf_objs s' = bf_objs s"
  shows "ready root es prog s'"
proof -
  note area = bystander_area [OF assms(2), of root]
  have at: "pin_base root (pin_node s) (bf_objs s)" "prog_pinned root prog (pin_node s)"
    "holds_current (bf_objs s) (fst prog) (snd prog) es" and names: "link_names_ok root (pin_node s)"
    using assms(1) by (simp_all add: ready_def seeded_at_def)
  have "pin_base root (pin_node s') (bf_objs s)"
  proof (rule base_no_proc [OF at(1)])
    fix q assume "prefix q root \<or> proc_area root q"
    then have "q \<noteq> join root x" using area by auto
    then show "pin_node s' q = pin_node s q" by (simp add: assms(4))
  qed
  moreover have "prog_pinned root prog (pin_node s')"
    using at(2) area by (simp add: prog_pinned_def assms(4))
  moreover have "link_names_ok root (pin_node s')"
    using names assms(3) by (simp add: link_names_ok_def assms(4))
  ultimately show ?thesis
    using at(3) by (simp add: ready_def seeded_at_def assms(5))
qed

lemma ready_same:
  "ready root es prog s \<Longrightarrow> pin_node s' = pin_node s \<Longrightarrow> bf_objs s' = bf_objs s \<Longrightarrow> ready root es prog s'"
  by (simp add: ready_def)

lemma prepare_pin_directory_ends:
  assumes "pin_base root (pin_node s) (bf_objs s)"
  shows "ends_in (prepare_pin_directory flt root s)
           (\<lambda>_ s'. pin_node s' = pin_node s \<and> bf_objs s' = bf_objs s)
           (\<lambda>s'. (prefix BPFFS_MOUNT root \<longrightarrow> flt \<noteq> (\<lambda>_. None)) \<and> pin_node s' = pin_node s \<and> bf_objs s' = bf_objs s)"
proof -
  have mount: "is_dir_node s BPFFS_MOUNT" if "prefix BPFFS_MOUNT root"
    using base_prefix [OF assms _ that] by (simp add: is_dir_node_def BPFFS_MOUNT_def)
  have "with_dirs root (pin_node s) = pin_node s"
    using base_prefix [OF assms] by (auto simp: with_dirs_def fun_eq_iff)
  then have "ends_in (fs_call flt (make_dirs root) s) (\<lambda>_ s'. pin_node s' = pin_node s \<and> bf_objs s' = bf_objs s)
      (\<lambda>s'. flt \<noteq> (\<lambda>_. None) \<and> pin_node s' = pin_node s \<and> bf_objs s' = bf_objs s)"
    using make_dirs_ends [of root s flt] base_prefix [OF assms] by simp
  then show ?thesis
    unfolding prepare_pin_directory_def using mount by (auto intro: ends_in_mono)
qed

lemma remove_if_exists_ends:
  assumes "ready root es prog s" "x = LSM_LINK_PIN_NAME \<or> x = LSM_LINK_PIN_TMP_NAME"
  shows "ends_in (remove_if_exists flt (join root x) s)
           (\<lambda>_ s'. ready root es prog s' \<and> pin_node s' = (pin_node s)(join root x := None))
           (\<lambda>s'. flt \<noteq> (\<lambda>_. None) \<and> ready root es prog s')"
proof (cases "pin_node s (join root x)")
  case None
  with assms(1) show ?thesis by (simp add: remove_if_exists_def fun_upd_idem)
next
  case (Some n)
  then have n: "n \<noteq> DirNode" using assms by (auto simp: ready_def link_names_ok_def)
  have "bystander x" using assms(2) by auto
  then show ?thesis
    using Some ends_in_mono [OF remove_pin_ends [OF Some n, of flt]] ready_upd [OF assms(1), of x None] ready_same [OF assms(1)]
    by (simp add: remove_if_exists_def)
qed

lemma pin_link_ends:
  assumes "ready root es prog s" "pin_node s (link_tmp_pin root) = None"
  shows "ends_in (fs_call flt (pin_link (link_tmp_pin root) prog) s)
           (\<lambda>_ s'. ready root es prog s' \<and> pin_node s' = (pin_node s)(link_tmp_pin root \<mapsto> LinkPin (fst prog) (snd prog)))
           (\<lambda>s'. flt \<noteq> (\<lambda>_. None) \<and> ready root es prog s')"
proof -
  have call: "ends_in (fs_call flt (pin_link (link_tmp_pin root) prog) s)
      (\<lambda>_ s'. pin_node s' = (pin_node s)(link_tmp_pin root \<mapsto> LinkPin (fst prog) (snd prog)) \<and> bf_objs s' = bf_objs s)
      (\<lambda>s'. flt \<noteq> (\<lambda>_. None) \<and> pin_node s' = pin_node s \<and> bf_objs s' = bf_objs s)"
    by (rule fs_call_ends) (use assms ready_root [OF assms(1)] in \<open>simp add: pin_link_def is_dir_node_def\<close>)
  show ?thesis
    by (rule ends_in_mono [OF call]) (auto intro: ready_upd [OF assms(1) bystander_link(2)] ready_same [OF assms(1)])
qed

lemma move_link_ends:
  assumes "ready root es prog s" "pin_node s (link_tmp_pin root) = Some (LinkPin (fst prog) (snd prog))"
  shows "ends_in (fs_call flt (move_node (link_tmp_pin root) (link_pin root)) s)
           (\<lambda>_ s'. ready root es prog s' \<and> pin_node s' (link_pin root) = Some (LinkPin (fst prog) (snd prog)))
           (\<lambda>s'. flt \<noteq> (\<lambda>_. None) \<and> ready root es prog s')"
proof -
  have "pin_node s (butlast (link_pin root)) = Some DirNode"
    unfolding butlast_join by (rule ready_root [OF assms(1)])
  moreover have "pin_node s (link_pin root) \<noteq> Some DirNode"
    using assms(1) by (simp add: ready_def link_names_ok_def)
  ultimately have call: "ends_in (fs_call flt (move_node (link_tmp_pin root) (link_pin root)) s)
      (\<lambda>_ s'. pin_node s' = (pin_node s)(link_tmp_pin root := None, link_pin root \<mapsto> LinkPin (fst prog) (snd prog)) \<and>
              bf_objs s' = bf_objs s)
      (\<lambda>s'. flt \<noteq> (\<lambda>_. None) \<and> pin_node s' = pin_node s \<and> bf_objs s' = bf_objs s)"
    using move_node_ends [OF assms(2)] by simp
  show ?thesis
  proof (rule ends_in_mono [OF call])
    fix u :: unit and s'
    assume h: "pin_node s' = (pin_node s)(link_tmp_pin root := None, link_pin root \<mapsto> LinkPin (fst prog) (snd prog)) \<and>
        bf_objs s' = bf_objs s"
    have "ready root es prog (drop_node (link_tmp_pin root) s)"
      by (rule ready_upd [OF assms(1) bystander_link(2), of None]) simp_all
    from ready_upd [OF this bystander_link(1), of "Some (LinkPin (fst prog) (snd prog))" s'] h
    show "ready root es prog s' \<and> pin_node s' (link_pin root) = Some (LinkPin (fst prog) (snd prog))" by simp
  qed (use ready_same [OF assms(1)] in auto)
qed

text \<open>From the attached program to its pinned link.\<close>

definition pin_attached :: "faults \<Rightarrow> nat \<times> nat \<Rightarrow> pin_path \<Rightarrow> BpfFs \<Rightarrow> (pin_error + nat \<times> nat) \<times> BpfFs" where
  "pin_attached flt prog root s =
     io_then (fs_call flt (pin_link (link_tmp_pin root) prog) s) (\<lambda>_ s.
     io_then (remove_if_exists flt (link_pin root) s) (\<lambda>_ s.
     io_then (fs_call flt (move_node (link_tmp_pin root) (link_pin root)) s) (\<lambda>_ s.
     (open_link (link_pin root) s, s))))"

lemma attach_unfold:
  "attach_and_pin_lsm_fail_closed flt attach prog root s =
     io_then (prepare_pin_directory flt root s) (\<lambda>_ s.
     io_then (remove_if_exists flt (link_tmp_pin root) s) (\<lambda>_ s.
     case attach of Some e \<Rightarrow> (Inl (AttachRefused e), s) | None \<Rightarrow> pin_attached flt prog root s))"
  by (cases attach) (simp_all add: attach_and_pin_lsm_fail_closed_def enforcement_pin_paths_def pin_attached_def Let_def)

lemma pin_attached_ends:
  assumes "ready root es prog s" "pin_node s (link_tmp_pin root) = None"
  shows "ends_in (pin_attached flt prog root s)
           (\<lambda>_ s'. ready root es prog s' \<and> pin_node s' (link_pin root) = Some (LinkPin (fst prog) (snd prog)))
           (\<lambda>s'. flt \<noteq> (\<lambda>_. None) \<and> ready root es prog s')"
  unfolding pin_attached_def
proof (rule ends_in_then [OF pin_link_ends [OF assms]], elim conjE)
  fix u :: unit and s1
  assume s1: "ready root es prog s1"
    "pin_node s1 = (pin_node s)(link_tmp_pin root \<mapsto> LinkPin (fst prog) (snd prog))"
  show "ends_in (io_then (remove_if_exists flt (link_pin root) s1) (\<lambda>_ s.
     io_then (fs_call flt (move_node (link_tmp_pin root) (link_pin root)) s) (\<lambda>_ s. (open_link (link_pin root) s, s))))
     (\<lambda>_ s'. ready root es prog s' \<and> pin_node s' (link_pin root) = Some (LinkPin (fst prog) (snd prog)))
     (\<lambda>s'. flt \<noteq> (\<lambda>_. None) \<and> ready root es prog s')"
  proof (rule ends_in_then [OF remove_if_exists_ends [OF s1(1)]], simp, elim conjE)
    fix u :: unit and s2
    assume s2: "ready root es prog s2" "pin_node s2 = (pin_node s1)(link_pin root := None)"
    then have t2: "pin_node s2 (link_tmp_pin root) = Some (LinkPin (fst prog) (snd prog))"
      using s1(2) by simp
    show "ends_in (io_then (fs_call flt (move_node (link_tmp_pin root) (link_pin root)) s2)
       (\<lambda>_ s. (open_link (link_pin root) s, s)))
     (\<lambda>_ s'. ready root es prog s' \<and> pin_node s' (link_pin root) = Some (LinkPin (fst prog) (snd prog)))
     (\<lambda>s'. flt \<noteq> (\<lambda>_. None) \<and> ready root es prog s')"
      by (rule ends_in_then [OF move_link_ends [OF s2(1) t2]]) (simp add: open_link_def)
  qed
qed

lemma attach_ends:
  assumes "ready root es prog s"
  shows "ends_in (attach_and_pin_lsm_fail_closed flt attach prog root s)
           (\<lambda>_ s'. ready root es prog s' \<and> pin_node s' (link_pin root) = Some (LinkPin (fst prog) (snd prog)))
           (\<lambda>s'. (prefix BPFFS_MOUNT root \<longrightarrow> flt \<noteq> (\<lambda>_. None) \<or> attach \<noteq> None) \<and> ready root es prog s')"
    (is "ends_in _ ?Q ?R")
  unfolding attach_unfold
proof (rule ends_in_then [OF ends_in_mono [OF prepare_pin_directory_ends]])
  show "pin_base root (pin_node s) (bf_objs s)" using assms by (simp add: ready_def seeded_at_def)
next
  fix u :: unit and s1 assume "pin_node s1 = pin_node s \<and> bf_objs s1 = bf_objs s"
  then have s1: "ready root es prog s1" using ready_same [OF assms] by simp
  show "ends_in (io_then (remove_if_exists flt (link_tmp_pin root) s1) (\<lambda>_ s. case attach of
      Some e \<Rightarrow> (Inl (AttachRefused e), s) | None \<Rightarrow> pin_attached flt prog root s)) ?Q ?R"
  proof (rule ends_in_then [OF ends_in_mono [OF remove_if_exists_ends [OF s1]]])
    fix u :: unit and s2
    assume s2: "ready root es prog s2 \<and> pin_node s2 = (pin_node s1)(link_tmp_pin root := None)"
    show "ends_in (case attach of Some e \<Rightarrow> (Inl (AttachRefused e), s2) | None \<Rightarrow> pin_attached flt prog root s2) ?Q ?R"
    proof (cases attach)
      case None
      have "ends_in (pin_attached flt prog root s2) ?Q ?R"
        by (rule ends_in_mono [OF pin_attached_ends]) (use s2 in auto)
      with None show ?thesis by simp
    qed (use s2 in simp)
  next
    fix s' assume "flt \<noteq> (\<lambda>_. None) \<and> ready root es prog s'"
    then show "?R s'" by simp
  qed simp
next
  fix s' assume "(prefix BPFFS_MOUNT root \<longrightarrow> flt \<noteq> (\<lambda>_. None)) \<and> pin_node s' = pin_node s \<and> bf_objs s' = bf_objs s"
  then show "?R s'" using ready_same [OF assms, of s'] by blast
qed

subsection \<open>The cleanup\<close>

definition armed :: "pin_path \<Rightarrow> PathDenyEntry list \<Rightarrow> nat \<times> nat \<Rightarrow> BpfFs \<Rightarrow> bool" where
  "armed root es prog s \<longleftrightarrow>
     ready root es prog s \<and> pin_node s (link_pin root) = Some (LinkPin (fst prog) (snd prog))"

definition expendable :: "string \<Rightarrow> bool" where
  "expendable y \<longleftrightarrow> y \<notin> set (PATH_DENY_LIST_MAP # PATH_DENY_COUNT_MAP # LSM_LINK_PIN_NAME # proc_names)"

lemma base_pruned:
  assumes "pin_base root t objs" "y \<notin> set proc_names" "pruned (join root y) t t'"
  shows "pin_base root t' objs"
proof (rule pin_baseI [OF assms(1)])
  have less: "t' q = t q \<or> t' q = None" for q using assms(3) by (auto simp: pruned_def)
  fix n assume n: "n \<in> set proc_names" and ok: "proc_pin_ok root t objs n"
  have "t' (join root n) = t (join root n)"
    using assms(2,3) n by (auto simp: pruned_def dest!: spec [of _ "join root n"])
  with ok show "proc_pin_ok root t' objs n"
    using less [of "proc_dir root n"] less [of "join (proc_dir root n) n"]
    unfolding proc_pin_ok_def by auto
next
  fix q assume "prefix q root"
  then have "\<not> prefix (join root y) q" by (auto simp: prefix_def)
  then show "t' q = t q" using assms(3) by (auto simp: pruned_def)
qed

lemma armed_pruned:
  assumes "armed root es prog s" "expendable y" "pruned (join root y) (pin_node s) (pin_node s')"
    "bf_objs s' = bf_objs s"
  shows "armed root es prog s'"
proof -
  have keep: "pin_node s' (join root x) = pin_node s (join root x)" if "x \<noteq> y" for x
    using assms(3) that by (auto simp: pruned_def dest!: spec [of _ "join root x"])
  have y: "y \<notin> set proc_names" "PATH_DENY_LIST_MAP \<noteq> y" "PATH_DENY_COUNT_MAP \<noteq> y" "LSM_LINK_PIN_NAME \<noteq> y"
    using assms(2) by (auto simp: expendable_def)
  have at: "pin_base root (pin_node s) (bf_objs s)" using assms(1) by (simp add: armed_def ready_def seeded_at_def)
  have "pin_node s' (link_tmp_pin root) \<noteq> Some DirNode"
    using assms(1,3) by (auto simp: armed_def ready_def link_names_ok_def pruned_def dest!: spec [of _ "link_tmp_pin root"])
  then show ?thesis
    using assms(1,4) base_pruned [OF at y(1) assms(3)] keep [OF y(2)] keep [OF y(3)] keep [OF y(4)]
    by (simp add: armed_def ready_def seeded_at_def prog_pinned_def link_names_ok_def)
qed

definition vanished :: "pin_tree \<Rightarrow> pin_tree \<Rightarrow> bool" where
  "vanished t t' \<longleftrightarrow> (\<forall>q. t' q = t q \<or> t' q = None)"

lemma vanished_pruned: "pruned p t t' \<Longrightarrow> vanished t t'"
  by (auto simp: vanished_def pruned_def)

lemma vanished_trans: "vanished t t' \<Longrightarrow> vanished t' t'' \<Longrightarrow> vanished t t''"
  unfolding vanished_def by metis

lemma remove_dirs_ends:
  assumes "armed root es prog s" "distinct ds"
    and "\<And>d. d \<in> set ds \<Longrightarrow> pin_node s d = Some DirNode \<and> (\<exists>y. d = join root y \<and> expendable y)"
  shows "ends_in (io_for (remove_tree flt) ds s)
           (\<lambda>_ s'. armed root es prog s' \<and> vanished (pin_node s) (pin_node s') \<and> (\<forall>d \<in> set ds. pin_node s' d = None))
           (\<lambda>s'. flt \<noteq> (\<lambda>_. None) \<and> armed root es prog s')"
  using assms
proof (induction ds arbitrary: s)
  case (Cons d ds)
  obtain y where y: "d = join root y" "expendable y" "pin_node s d = Some DirNode" using Cons.prems(3) [of d] by auto
  show ?case
    unfolding io_for.simps
  proof (rule ends_in_then [OF ends_in_mono [OF remove_tree_ends [of s d flt]]])
    show "is_dir_node s d" using y by (simp add: is_dir_node_def)
  next
    fix s' assume "flt \<noteq> (\<lambda>_. None) \<and> pruned d (pin_node s) (pin_node s') \<and> bf_objs s' = bf_objs s"
    then show "flt \<noteq> (\<lambda>_. None) \<and> armed root es prog s'"
      using armed_pruned [OF Cons.prems(1) y(2), of s'] y(1) by simp
  next
    fix u :: unit and s1
    assume s1: "pin_node s1 = without_tree d (pin_node s) \<and> bf_objs s1 = bf_objs s"
    then have pr: "pruned d (pin_node s) (pin_node s1)" by simp
    have armed1: "armed root es prog s1"
      using armed_pruned [OF Cons.prems(1) y(2), of s1] s1 y(1) by simp
    have dirs: "pin_node s1 e = Some DirNode \<and> (\<exists>y. e = join root y \<and> expendable y)" if "e \<in> set ds" for e
    proof -
      have e: "pin_node s e = Some DirNode" "\<exists>y. e = join root y \<and> expendable y" "e \<noteq> d"
        using Cons.prems(2,3) that by auto
      then have "\<not> prefix d e" using y(1) by auto
      with e s1 show ?thesis by (simp add: without_tree_def)
    qed
    have gone: "pin_node s1 d = None" using s1 by (simp add: without_tree_def)
    show "ends_in (io_for (remove_tree flt) ds s1)
        (\<lambda>_ s'. armed root es prog s' \<and> vanished (pin_node s) (pin_node s') \<and> (\<forall>d \<in> set (d # ds). pin_node s' d = None))
        (\<lambda>s'. flt \<noteq> (\<lambda>_. None) \<and> armed root es prog s')"
    proof (rule ends_in_mono [OF Cons.IH [OF armed1 _ dirs]])
      fix u :: unit and s'
      assume h: "armed root es prog s' \<and> vanished (pin_node s1) (pin_node s') \<and> (\<forall>d \<in> set ds. pin_node s' d = None)"
      then have "pin_node s' d = None" using gone by (metis vanished_def)
      with h show "armed root es prog s' \<and> vanished (pin_node s) (pin_node s') \<and> (\<forall>d \<in> set (d # ds). pin_node s' d = None)"
        using vanished_trans [OF vanished_pruned [OF pr]] by simp
    qed (use Cons.prems(2) in auto)
  qed
qed (auto simp: vanished_def)

definition no_staging :: "pin_path \<Rightarrow> pin_tree \<Rightarrow> bool" where
  "no_staging root t \<longleftrightarrow> (\<forall>d. staging_dir root d \<longrightarrow> t d \<noteq> Some DirNode)"

lemma cleanup_legacy_ends:
  assumes "armed root es prog s"
  shows "ends_in (cleanup_legacy_abi_dirs (RealPinAbiIo flt) root s)
           (\<lambda>_ s'. armed root es prog s' \<and> no_staging root (pin_node s'))
           (\<lambda>s'. flt \<noteq> (\<lambda>_. None) \<and> armed root es prog s')"
proof -
  have "pin_node s root = Some DirNode" using assms by (auto simp: armed_def intro: ready_root)
  then obtain ds where ds: "list_legacy_abi_dirs (RealPinAbiIo flt) root s = Inr ds" "distinct ds"
    "set ds = {d. staging_dir root d \<and> pin_node s d = Some DirNode}"
    using bpffs.list_legacy_abi_dirs_ok [of s root flt] by blast
  have "ends_in (io_for (remove_tree flt) ds s)
      (\<lambda>_ s'. armed root es prog s' \<and> vanished (pin_node s) (pin_node s') \<and> (\<forall>d \<in> set ds. pin_node s' d = None))
      (\<lambda>s'. flt \<noteq> (\<lambda>_. None) \<and> armed root es prog s')"
  proof (rule remove_dirs_ends [OF assms ds(2)])
    fix d assume "d \<in> set ds"
    then obtain y k where "pin_node s d = Some DirNode" "d = join root y" "legacy_abi_numeric_suffix y = Some k"
      by (auto simp: ds(3) elim: staging_dirE)
    moreover from this have "expendable y"
      using bystander_link(1) by (auto simp: expendable_def bystander_def)
    ultimately show "pin_node s d = Some DirNode \<and> (\<exists>y. d = join root y \<and> expendable y)" by blast
  qed
  then show ?thesis
    unfolding cleanup_legacy_abi_dirs_def ds(1) sum.case RealPinAbiIo_simps(6)
    by (rule ends_in_mono) (auto simp: no_staging_def ds(3) vanished_def, metis option.distinct(1))
qed

lemma cleanup_proc_ends:
  assumes "armed root es prog s" "no_staging root (pin_node s)"
  shows "ends_in (cleanup_proc_abi_dirs (RealPinAbiIo flt) root s)
           (\<lambda>_ s'. armed root es prog s' \<and> no_staging root (pin_node s'))
           (\<lambda>s'. flt \<noteq> (\<lambda>_. None) \<and> armed root es prog s')"
proof -
  have "is_dir_node s root" using assms by (auto simp: armed_def is_dir_node_def intro: ready_root)
  then obtain ns where ns: "dir_names s root = Inr ns" "distinct ns" using dir_names_ok by blast
  define ds where "ds = sort (filter (is_dir_node s)
         (map (join root) (filter (\<lambda>name. starts_with name PROC_ABI_DIR_PREFIX \<and> CHR ''.'' \<notin> set name) ns)))"
  have run: "cleanup_proc_abi_dirs (RealPinAbiIo flt) root s = io_for (remove_tree flt) ds s"
    by (simp add: cleanup_proc_abi_dirs_def list_proc_abi_dirs_def RealPinAbiIo_simps(6,7) ns(1) ds_def
        RealPinAbiIo_def)
  have "distinct ds" using ns(2) by (auto simp: ds_def distinct_map inj_on_def)
  show ?thesis
    unfolding run
  proof (rule ends_in_mono [OF remove_dirs_ends [OF assms(1) \<open>distinct ds\<close>]])
    fix d assume "d \<in> set ds"
    then obtain y where "pin_node s d = Some DirNode" "d = join root y" "starts_with y PROC_ABI_DIR_PREFIX"
      by (auto simp: ds_def is_dir_node_def)
    moreover from this have "expendable y"
      by (auto simp: expendable_def starts_with_iff LSM_LINK_PIN_NAME_def pin_names)
    ultimately show "pin_node s d = Some DirNode \<and> (\<exists>y. d = join root y \<and> expendable y)" by blast
  qed (use assms(2) in \<open>auto simp: no_staging_def vanished_def\<close>, metis option.distinct(1))
qed

subsection \<open>One boot\<close>

text \<open>The policy \<open>es\<close> is on the node, in one of the places a migration puts it.\<close>

definition policy_on_node :: "pin_path \<Rightarrow> PathDenyEntry list \<Rightarrow> BpfFs \<Rightarrow> bool" where
  "policy_on_node root es s \<longleftrightarrow>
     migrating root es (pin_node s) (bf_objs s) \<and> link_names_ok root (pin_node s)"

text \<open>Nothing stands in the way of a boot.\<close>

definition unhindered :: "pin_path \<Rightarrow> BootEnv \<Rightarrow> BpfFs \<Rightarrow> bool" where
  "unhindered root env s \<longleftrightarrow>
     prefix BPFFS_MOUNT root \<and> be_faults env = (\<lambda>_. None) \<and> be_map_faults env = (\<lambda>_. None) \<and>
     be_attach env = None \<and> loads_current root (be_load env) \<and> staging_room root (pin_node s)"

lemma ends_in_keeps:
  assumes "ends_in m Q R" "keeps f s m"
  shows "ends_in m (\<lambda>x s'. Q x s' \<and> f s' = f s) (\<lambda>s'. R s' \<and> f s' = f s)"
  using assms by (auto simp: ends_in_def keeps_def split: prod.splits sum.splits)

lemma armed_on_node: "armed root es prog s \<Longrightarrow> policy_on_node root es s"
  by (auto simp: armed_def ready_def policy_on_node_def intro: seeded_at_migrating)

lemma ready_on_node: "ready root es prog s \<Longrightarrow> policy_on_node root es s"
  by (auto simp: ready_def policy_on_node_def intro: seeded_at_migrating)

lemma migrating_base: "migrating root es t objs \<Longrightarrow> pin_base root t objs"
  by (erule migrating.cases)

lemma prepared_consistent:
  assumes "prepared root es seed (pin_node s) (bf_objs s)"
  shows "classify_enforcement_pins root s \<noteq> InconsistentLinkWithoutMaps"
proof (cases seed)
  case SeedResumePinned
  with assms show ?thesis
    by (auto simp: prepared_def policy_seeded_def classify_enforcement_pins_def is_file_def Let_def)
next
  case (MigratedEntries entries from_legacy)
  with assms obtain d where base: "pin_base root (pin_node s) (bf_objs s)"
    and d: "legacy_staged root d es (pin_node s) (bf_objs s)" and n: "pin_node s (deny_list_pin root) = None"
    by (auto simp: prepared_def fully_staged_def)
  then have "select_deny_legacy_dir (RealPinAbiIo (\<lambda>_. None)) root s = Inr (Some d)"
    by (intro bpffs.select_one [OF base_root [OF base]]) (auto simp: legacy_staged_def)
  with n show ?thesis by (simp add: classify_enforcement_pins_def is_file_def)
qed (use assms in \<open>simp add: prepared_def\<close>)

lemma prepared_loads:
  assumes "prepared root es seed (pin_node s) (bf_objs s)" "loads_current root load"
  shows "\<exists>prog. fst (load s) = Inr prog"
proof -
  have "\<forall>name \<in> {PATH_DENY_LIST_MAP, PATH_DENY_COUNT_MAP}. pin_node s (join root name) = None \<or>
      (\<exists>i. pin_node s (join root name) = Some (MapPin i) \<and> current_map (bf_objs s) name i)"
  proof (cases seed)
    case SeedResumePinned
    with assms(1) obtain l c where "pin_node s (deny_list_pin root) = Some (MapPin l)"
      "pin_node s (deny_count_pin root) = Some (MapPin c)"
      "current_map (bf_objs s) PATH_DENY_LIST_MAP l" "current_map (bf_objs s) PATH_DENY_COUNT_MAP c"
      by (auto simp: prepared_def policy_seeded_def holds_current_def count_is_def)
    then show ?thesis by simp
  qed (use assms(1) in \<open>simp_all add: prepared_def fully_staged_def\<close>)
  with assms(2) show ?thesis unfolding loads_current_def by blast
qed

text \<open>From the prepared pin root to the end of the boot.\<close>

definition boot_prepared ::
  "BootEnv \<Rightarrow> pin_path \<Rightarrow> DenySeedOverride \<times> MigrationResult list \<Rightarrow> BpfFs \<Rightarrow>
   (pin_error + PolicySyncState \<times> MigrationResult list) \<times> BpfFs" where
  "boot_prepared env root p s =
     io_then (apfst (map_sum LoadRefused id) (be_load env s)) (\<lambda>prog s.
     io_then (seed_pinned_maps (be_map_faults env) (be_now env) (fst p) prog s) (\<lambda>state s.
     io_then (attach_and_pin_lsm_fail_closed (be_faults env) (be_attach env) prog root s) (\<lambda>_ s.
     io_then (cleanup_legacy_abi_dirs (RealPinAbiIo (be_faults env)) root s) (\<lambda>_ s.
     io_then (cleanup_proc_abi_dirs (RealPinAbiIo (be_faults env)) root s) (\<lambda>_ s.
     (Inr (state, snd p), s))))))"

lemma boot_unfold:
  "boot_enforcement env root s =
     io_then (prepare_pin_directory (be_faults env) root s) (\<lambda>_ s.
     io_then (prepare_pin_root_for_load (RealPinAbiIo (be_faults env)) root s) (\<lambda>p s.
     if classify_enforcement_pins root s = InconsistentLinkWithoutMaps then (Inl InconsistentPins, s)
     else boot_prepared env root p s))"
  by (simp add: boot_enforcement_def boot_prepared_def Let_def case_prod_beta' cong: if_cong)

lemma arm_ends:
  assumes "ready root es prog s"
  shows "ends_in
     (io_then (attach_and_pin_lsm_fail_closed flt attach prog root s) (\<lambda>_ s.
      io_then (cleanup_legacy_abi_dirs (RealPinAbiIo flt) root s) (\<lambda>_ s.
      io_then (cleanup_proc_abi_dirs (RealPinAbiIo flt) root s) (\<lambda>_ s. (Inr x, s)))))
     (\<lambda>_ s'. armed root es prog s' \<and> no_staging root (pin_node s'))
     (\<lambda>s'. (prefix BPFFS_MOUNT root \<longrightarrow> flt \<noteq> (\<lambda>_. None) \<or> attach \<noteq> None) \<and> policy_on_node root es s')"
    (is "ends_in _ ?Q ?R")
proof (rule ends_in_then [OF ends_in_mono [OF attach_ends [OF assms]]])
  fix m s1 assume "ready root es prog s1 \<and> pin_node s1 (link_pin root) = Some (LinkPin (fst prog) (snd prog))"
  then have s1: "armed root es prog s1" by (simp add: armed_def)
  show "ends_in (io_then (cleanup_legacy_abi_dirs (RealPinAbiIo flt) root s1) (\<lambda>_ s.
      io_then (cleanup_proc_abi_dirs (RealPinAbiIo flt) root s) (\<lambda>_ s. (Inr x, s)))) ?Q ?R"
  proof (rule ends_in_then [OF ends_in_mono [OF cleanup_legacy_ends [OF s1]]])
    fix u :: unit and s2 assume s2: "armed root es prog s2 \<and> no_staging root (pin_node s2)"
    show "ends_in (io_then (cleanup_proc_abi_dirs (RealPinAbiIo flt) root s2) (\<lambda>_ s. (Inr x, s))) ?Q ?R"
      by (rule ends_in_then [OF ends_in_mono [OF cleanup_proc_ends]])
         (use s2 armed_on_node [of root es prog] in auto)
  qed (use armed_on_node [of root es prog] in auto)
qed (use ready_on_node [of root es prog] in auto)

lemma boot_prepared_ends:
  assumes load: "reuses_pins root (be_load env)"
    and prep: "prepared root es (fst p) (pin_node s) (bf_objs s)" and names: "link_names_ok root (pin_node s)"
  shows "ends_in (boot_prepared env root p s)
     (\<lambda>_ s'. \<exists>prog. armed root es prog s' \<and> no_staging root (pin_node s'))
     (\<lambda>s'. \<not> (prefix BPFFS_MOUNT root \<and> be_faults env = (\<lambda>_. None) \<and> be_map_faults env = (\<lambda>_. None) \<and>
             be_attach env = None \<and> loads_current root (be_load env)) \<and> policy_on_node root es s')"
    (is "ends_in _ ?Q ?R")
proof -
  obtain r s1 where l: "be_load env s = (r, s1)" by force
  have step: "loader_step root s r s1" using load l by (auto simp: reuses_pins_def dest: spec [of _ s])
  have names1: "link_names_ok root (pin_node s1)"
    using names step bystander_area [OF bystander_link(1)] bystander_area [OF bystander_link(2)]
    by (simp add: link_names_ok_def loader_step_def)
  note ends = load_ends [OF prep step]
  show ?thesis
  proof (cases r)
    case (Inl e)
    have "\<not> loads_current root (be_load env)"
      using prepared_loads [OF prep, of "be_load env"] l Inl by auto
    with Inl ends(1) names1 show ?thesis by (simp add: boot_prepared_def l policy_on_node_def)
  next
    case (Inr prog)
    have run: "boot_prepared env root p s =
        io_then (seed_pinned_maps (be_map_faults env) (be_now env) (fst p) prog s1) (\<lambda>state s.
        io_then (attach_and_pin_lsm_fail_closed (be_faults env) (be_attach env) prog root s) (\<lambda>_ s.
        io_then (cleanup_legacy_abi_dirs (RealPinAbiIo (be_faults env)) root s) (\<lambda>_ s.
        io_then (cleanup_proc_abi_dirs (RealPinAbiIo (be_faults env)) root s) (\<lambda>_ s.
        (Inr (state, snd p), s)))))"
      by (simp add: boot_prepared_def l Inr)
    show ?thesis
      unfolding run
    proof (rule ends_in_then [OF ends_in_mono [OF seed_ends [OF ends(2) [OF Inr]]]])
      fix st s2
      assume "pin_node s2 = pin_node s1 \<and> seeded_at root es prog (pin_node s2) (bf_objs s2)"
      then have r2: "ready root es prog s2" using names1 by (auto simp: ready_def)
      show "ends_in (io_then (attach_and_pin_lsm_fail_closed (be_faults env) (be_attach env) prog root s2) (\<lambda>_ s.
        io_then (cleanup_legacy_abi_dirs (RealPinAbiIo (be_faults env)) root s) (\<lambda>_ s.
        io_then (cleanup_proc_abi_dirs (RealPinAbiIo (be_faults env)) root s) (\<lambda>_ s.
        (Inr (st, snd p), s))))) ?Q ?R"
        by (rule ends_in_mono [OF arm_ends [OF r2]]) blast+
    qed (use names1 in \<open>auto simp: policy_on_node_def\<close>)
  qed
qed

lemma boot_ends:
  assumes load: "reuses_pins root (be_load env)" and pol: "policy_on_node root es s"
  shows "ends_in (boot_enforcement env root s)
     (\<lambda>_ s'. \<exists>prog. armed root es prog s' \<and> no_staging root (pin_node s'))
     (\<lambda>s'. \<not> unhindered root env s \<and> policy_on_node root es s')"
    (is "ends_in _ ?Q ?R")
  unfolding boot_unfold
proof (rule ends_in_then [OF ends_in_mono [OF prepare_pin_directory_ends]])
  show "pin_base root (pin_node s) (bf_objs s)" using pol by (auto simp: policy_on_node_def intro: migrating_base)
next
  fix s' assume "(prefix BPFFS_MOUNT root \<longrightarrow> be_faults env \<noteq> (\<lambda>_. None)) \<and> pin_node s' = pin_node s \<and> bf_objs s' = bf_objs s"
  then show "?R s'" using pol by (auto simp: policy_on_node_def unhindered_def)
next
  fix u :: unit and s1 assume s1: "pin_node s1 = pin_node s \<and> bf_objs s1 = bf_objs s"
  then have mig: "migrating root es (pin_node s1) (bf_objs s1)" and names: "link_names_ok root (pin_node s1)"
    using pol by (simp_all add: policy_on_node_def)
  let ?f = "\<lambda>s. (pin_node s (link_pin root), pin_node s (link_tmp_pin root))"
  let ?prep = "prepare_pin_root_for_load (RealPinAbiIo (be_faults env)) root s1"
  have "keeps ?f s1 ?prep"
    using bpffs.prepare_keeps [OF bystander_link(1), of root s1 "be_faults env"]
      bpffs.prepare_keeps [OF bystander_link(2), of root s1 "be_faults env"]
    by (simp add: keeps_def)
  note prep = ends_in_keeps [OF bpffs.prepare_ends [OF mig] this]
  show "ends_in (io_then ?prep (\<lambda>p s.
      if classify_enforcement_pins root s = InconsistentLinkWithoutMaps then (Inl InconsistentPins, s)
      else boot_prepared env root p s)) ?Q ?R"
  proof (rule ends_in_then [OF ends_in_mono [OF prep]])
    fix p :: "DenySeedOverride \<times> MigrationResult list" and s2
    assume h: "(prepared root es (fst p) (pin_node s2) (bf_objs s2) \<and> bf_objs s2 = bf_objs s1) \<and> ?f s2 = ?f s1"
    then have prepd: "prepared root es (fst p) (pin_node s2) (bf_objs s2)" by blast
    have n2: "link_names_ok root (pin_node s2)" using h names by (simp add: link_names_ok_def)
    have "ends_in (boot_prepared env root p s2) ?Q ?R"
      by (rule ends_in_mono [OF boot_prepared_ends [OF load prepd n2]]) (unfold unhindered_def, blast+)
    then show "ends_in (if classify_enforcement_pins root s2 = InconsistentLinkWithoutMaps then (Inl InconsistentPins, s2)
      else boot_prepared env root p s2) ?Q ?R"
      using prepared_consistent [OF prepd] by simp
  next
    fix s2
    assume "((be_faults env = (\<lambda>_. None) \<longrightarrow> \<not> staging_room root (pin_node s1)) \<and>
      migrating root es (pin_node s2) (bf_objs s2) \<and> bf_objs s2 = bf_objs s1) \<and> ?f s2 = ?f s1"
    moreover from this have "link_names_ok root (pin_node s2)" using names by (simp add: link_names_ok_def)
    moreover have "pin_node s1 = pin_node s" using s1 by simp
    ultimately show "?R s2" unfolding unhindered_def policy_on_node_def by auto
  qed
qed

subsection \<open>Enforcement during a boot\<close>

definition holds_policy :: "map_store \<Rightarrow> nat \<Rightarrow> nat \<Rightarrow> PathDenyEntry list \<Rightarrow> bool" where
  "holds_policy objs l c es \<longleftrightarrow> holds_legacy objs l c es \<or> holds_current objs l c es"

lemma holds_policy_cong:
  "objs' l = objs l \<Longrightarrow> objs' c = objs c \<Longrightarrow> holds_policy objs' l c es = holds_policy objs l c es"
  by (simp add: holds_policy_def holds_legacy_def holds_current_def current_map_def count_is_def)

lemma holds_policy_Some:
  assumes "holds_policy objs l c es"
  shows "objs l \<noteq> None" "objs c \<noteq> None"
  using assms by (auto simp: holds_policy_def holds_legacy_def holds_current_def count_is_def)

text \<open>One of the two link names holds the link of a program whose maps hold the policy.\<close>

definition guarded :: "pin_path \<Rightarrow> PathDenyEntry list \<Rightarrow> BpfFs \<Rightarrow> bool" where
  "guarded root es s \<longleftrightarrow>
     (\<exists>x l c. (x = LSM_LINK_PIN_NAME \<or> x = LSM_LINK_PIN_TMP_NAME) \<and>
        pin_node s (join root x) = Some (LinkPin l c) \<and> holds_policy (bf_objs s) l c es)"

lemma guardedI:
  "pin_node s (join root x) = Some (LinkPin l c) \<Longrightarrow> x = LSM_LINK_PIN_NAME \<or> x = LSM_LINK_PIN_TMP_NAME \<Longrightarrow>
   holds_policy (bf_objs s) l c es \<Longrightarrow> guarded root es s"
  by (auto simp: guarded_def)

lemma guarded_enforcing: "guarded root es s \<Longrightarrow> enforcing s"
  by (auto simp: guarded_def enforcing_iff)

lemma armed_guarded: "armed root es prog s \<Longrightarrow> guarded root es s"
  by (auto simp: armed_def ready_def seeded_at_def holds_policy_def intro: guardedI)

lemma call_objs:
  assumes "\<And>s s'. f s = Inr s' \<Longrightarrow> bf_objs s' = bf_objs s"
  shows "keeps bf_objs s (fs_call flt f s)"
  by (cases "flt (bf_tick s)"; cases "f (s\<lparr>bf_tick := Suc (bf_tick s)\<rparr>)")
     (simp_all add: keeps_def fs_call_def Let_def assms)

lemma ops_objs:
  "keeps bf_objs s (fs_call flt (make_dirs p) s)" "keeps bf_objs s (fs_call flt (move_node p q) s)"
  "keeps bf_objs s (fs_call flt (remove_pin p) s)" "keeps bf_objs s (fs_call flt (pin_link p prog) s)"
  by (rule call_objs; auto simp: make_dirs_def move_node_def remove_pin_def unlink_node_def pin_link_def
      fold_set_dirs(2) split: option.splits if_splits)+

lemma attach_objs: "keeps bf_objs s (attach_and_pin_lsm_fail_closed flt attach prog root s)"
  unfolding attach_unfold pin_attached_def prepare_pin_directory_def remove_if_exists_def
  by (cases attach) (auto intro!: keeps_then keeps_if keeps_here ops_objs)

lemma attach_guarded:
  assumes "pin_node s (link_pin root) = Some (LinkPin a b)" "holds_policy (bf_objs s) a b es"
    and "ready root es prog s"
  shows "guarded root es (snd (attach_and_pin_lsm_fail_closed flt attach prog root s))"
proof -
  let ?s' = "snd (attach_and_pin_lsm_fail_closed flt attach prog root s)"
  have objs: "bf_objs ?s' = bf_objs s" using attach_objs by (simp add: keeps_def)
  have new: "holds_policy (bf_objs ?s') (fst prog) (snd prog) es"
    using assms(3) objs by (simp add: ready_def seeded_at_def holds_policy_def)
  have "handing_over root (LinkPin a b) prog (pin_node ?s')"
    using attach_and_pin_ends [OF assms(1), of flt attach prog]
    by (auto simp: ends_in_def handing_over_def split: prod.splits sum.splits)
  with new assms(2) objs show ?thesis
    unfolding handing_over_def by (auto intro: guardedI)
qed

lemma arm_guarded:
  assumes "pin_node s (link_pin root) = Some (LinkPin a b)" "holds_policy (bf_objs s) a b es"
    and "ready root es prog s"
  shows "guarded root es (snd
     (io_then (attach_and_pin_lsm_fail_closed flt attach prog root s) (\<lambda>_ s.
      io_then (cleanup_legacy_abi_dirs (RealPinAbiIo flt) root s) (\<lambda>_ s.
      io_then (cleanup_proc_abi_dirs (RealPinAbiIo flt) root s) (\<lambda>_ s. (Inr x, s))))))"
proof -
  obtain r1 s1 where 1: "attach_and_pin_lsm_fail_closed flt attach prog root s = (r1, s1)" by force
  obtain r2 s2 where 2: "cleanup_legacy_abi_dirs (RealPinAbiIo flt) root s1 = (r2, s2)" by force
  obtain r3 s3 where 3: "cleanup_proc_abi_dirs (RealPinAbiIo flt) root s2 = (r3, s3)" by force
  have g1: "guarded root es s1" using attach_guarded [OF assms, of flt attach] 1 by simp
  have a1: "armed root es prog s1" if "r1 = Inr m" for m
    using attach_ends [OF assms(3), of flt attach] 1 that by (simp add: armed_def)
  have a2: "armed root es prog s2" "r2 = Inr u \<Longrightarrow> no_staging root (pin_node s2)" if "r1 = Inr m" for m u
    using cleanup_legacy_ends [OF a1 [OF that], of flt] 2 by (cases r2; simp)+
  have a3: "armed root es prog s3" if "r1 = Inr m" "r2 = Inr u" for m u
    using cleanup_proc_ends [OF a2(1) [OF that(1)] a2(2) [OF that], of flt] 3 by (cases r3) simp_all
  show ?thesis
    using g1 armed_guarded [OF a2(1)] armed_guarded [OF a3]
    by (cases r1; cases r2; cases r3) (simp_all add: 1 2 3)
qed

lemma seed_keeps_policy:
  assumes prep: "prepared root es seed (pin_node s) (bf_objs s)" and step: "loader_step root s (Inr prog) s1"
    and old: "holds_policy (bf_objs s) a b es"
  shows "holds_policy (bf_objs (snd (seed_pinned_maps mflt now seed prog s1))) a b es"
proof -
  note l = load_ends(2) [OF prep step refl]
  have ext: "bf_objs s1 i = bf_objs s i" if "bf_objs s i \<noteq> None" for i
    using step that by (simp add: loader_step_def)
  have old1: "holds_policy (bf_objs s1) a b es"
    using old ext holds_policy_Some [OF old] holds_policy_cong by metis
  show ?thesis
  proof (cases seed)
    case SeedResumePinned
    with l have "seeded_at root es prog (pin_node s1) (bf_objs s1)" by (simp add: loaded_def seeded_at_def)
    from seed_resume_ends [OF this, of mflt now] old1 SeedResumePinned show ?thesis
      by (auto simp: ends_in_def split: prod.splits sum.splits)
  next
    case (MigratedEntries entries from_legacy)
    with l obtain d where r: "resumable root d es (pin_node s1) (bf_objs s1)" "prog_pinned root prog (pin_node s1)"
      "bf_objs s1 (fst prog) = Some FRESH_LIST" "bf_objs s1 (snd prog) = Some FRESH_COUNT" "entries = es"
      by (auto simp: loaded_def)
    have fresh: "bf_objs s (fst prog) = None" "bf_objs s (snd prog) = None"
      using step prep MigratedEntries r(2)
      by (auto simp: loader_step_def pin_reused_def prepared_def fully_staged_def prog_pinned_def)
    then have "a \<noteq> fst prog" "a \<noteq> snd prog" "b \<noteq> fst prog" "b \<noteq> snd prog"
      using holds_policy_Some [OF old] by auto
    moreover have "store_frame prog (bf_objs s1) (bf_objs (snd (seed_pinned_maps mflt now seed prog s1)))"
      using seed_migrated_ends [OF r(1-4), of mflt now from_legacy] MigratedEntries r(5)
      by (auto simp: ends_in_def split: prod.splits sum.splits)
    ultimately show ?thesis
      using old1 holds_policy_cong [of "bf_objs (snd (seed_pinned_maps mflt now seed prog s1))" a "bf_objs s1" b es]
      by (simp add: store_frame_def)
  qed (use prep in \<open>simp add: prepared_def\<close>)
qed

lemma boot_prepared_guarded:
  assumes load: "reuses_pins root (be_load env)" and prep: "prepared root es (fst p) (pin_node s) (bf_objs s)"
    and names: "link_names_ok root (pin_node s)"
    and link: "pin_node s (link_pin root) = Some (LinkPin a b)" and old: "holds_policy (bf_objs s) a b es"
  shows "guarded root es (snd (boot_prepared env root p s))"
proof -
  obtain r s1 where l: "be_load env s = (r, s1)" by force
  have step: "loader_step root s r s1" using load l by (auto simp: reuses_pins_def dest: spec [of _ s])
  have nodes1: "pin_node s1 (join root x) = pin_node s (join root x)" if "bystander x" for x
    using step bystander_area [OF that] by (simp add: loader_step_def)
  have link1: "pin_node s1 (link_pin root) = Some (LinkPin a b)" using link nodes1 by simp
  have names1: "link_names_ok root (pin_node s1)" using names nodes1 by (simp add: link_names_ok_def)
  have old1: "holds_policy (bf_objs s1) a b es"
    using old holds_policy_Some [OF old] step holds_policy_cong [of "bf_objs s1" a "bf_objs s" b es]
    by (simp add: loader_step_def)
  show ?thesis
  proof (cases r)
    case (Inl e)
    then show ?thesis by (auto simp: boot_prepared_def l intro!: guardedI [OF link1] old1)
  next
    case (Inr prog)
    obtain r2 s2 where sd: "seed_pinned_maps (be_map_faults env) (be_now env) (fst p) prog s1 = (r2, s2)" by force
    note ends = seed_ends [OF load_ends(2) [OF prep step Inr], of "be_map_faults env" "be_now env"]
    have nodes2: "pin_node s2 = pin_node s1" using ends sd by (cases r2) simp_all
    have link2: "pin_node s2 (link_pin root) = Some (LinkPin a b)" using link1 nodes2 by simp
    have old2: "holds_policy (bf_objs s2) a b es"
      using seed_keeps_policy [OF prep step [unfolded Inr] old, of "be_map_faults env" "be_now env"] sd by simp
    show ?thesis
    proof (cases r2)
      case (Inl e)
      then show ?thesis
        using guardedI [OF link2 _ old2] by (simp add: boot_prepared_def l \<open>r = Inr prog\<close> sd)
    next
      case (Inr st)
      have "ready root es prog s2" using ends sd Inr names1 by (auto simp: ready_def)
      from arm_guarded [OF link2 old2 this] show ?thesis
        by (simp add: boot_prepared_def l \<open>r = Inr prog\<close> sd Inr)
    qed
  qed
qed

lemma boot_guarded:
  assumes load: "reuses_pins root (be_load env)" and pol: "policy_on_node root es s"
    and link: "pin_node s (link_pin root) = Some (LinkPin a b)" and old: "holds_policy (bf_objs s) a b es"
  shows "guarded root es (snd (boot_enforcement env root s))"
proof -
  obtain r1 s1 where 1: "prepare_pin_directory (be_faults env) root s = (r1, s1)" by force
  have base: "pin_base root (pin_node s) (bf_objs s)" using pol by (auto simp: policy_on_node_def intro: migrating_base)
  have s1: "pin_node s1 = pin_node s" "bf_objs s1 = bf_objs s"
    using prepare_pin_directory_ends [OF base, of "be_faults env"] 1 by (cases r1; simp)+
  have mig: "migrating root es (pin_node s1) (bf_objs s1)" using pol s1 by (simp add: policy_on_node_def)
  obtain r2 s2 where 2: "prepare_pin_root_for_load (RealPinAbiIo (be_faults env)) root s1 = (r2, s2)" by force
  have objs2: "bf_objs s2 = bf_objs s" using bpffs.prepare_ends [OF mig, of "be_faults env"] 2 s1 by (cases r2) simp_all
  have nodes2: "pin_node s2 (join root x) = pin_node s (join root x)" if "bystander x" for x
    using bpffs.prepare_keeps [OF that, of root s1 "be_faults env"] 2 s1 by (simp add: keeps_def)
  have g: "guarded root es s1" "guarded root es s2"
    using link old s1 objs2 nodes2 [OF bystander_link(1)] by (auto intro!: guardedI [where l = a and c = b and x = LSM_LINK_PIN_NAME])
  show ?thesis
  proof (cases r2)
    case (Inl e)
    with g show ?thesis by (cases r1) (simp_all add: boot_unfold 1 2)
  next
    case (Inr p)
    have prepd: "prepared root es (fst p) (pin_node s2) (bf_objs s2)"
      using bpffs.prepare_ends [OF mig, of "be_faults env"] 2 Inr by (auto simp: ends_in_def)
    have "link_names_ok root (pin_node s2)" using pol nodes2 by (simp add: policy_on_node_def link_names_ok_def)
    moreover have "pin_node s2 (link_pin root) = Some (LinkPin a b)" using nodes2 link by simp
    ultimately have "guarded root es (snd (boot_prepared env root p s2))"
      using boot_prepared_guarded [OF load prepd] old objs2 by simp
    with g prepared_consistent [OF prepd] show ?thesis
      by (cases r1) (simp_all add: boot_unfold 1 2 Inr)
  qed
qed

subsection \<open>Sequences of boots\<close>

definition boots :: "pin_path \<Rightarrow> BootEnv list \<Rightarrow> BpfFs \<Rightarrow> BpfFs" where
  "boots root envs s = fold (\<lambda>env s. snd (boot_enforcement env root s)) envs s"

lemma boot_keeps_policy:
  "reuses_pins root (be_load env) \<Longrightarrow> policy_on_node root es s \<Longrightarrow>
   policy_on_node root es (snd (boot_enforcement env root s))"
  using boot_ends [of root env es s] armed_on_node [of root es]
  by (auto simp: ends_in_def split: prod.splits sum.splits)

text \<open>However boots are interrupted, the policy stays on the node.\<close>

lemma boots_policy:
  assumes "\<forall>env \<in> set envs. reuses_pins root (be_load env)" "policy_on_node root es s"
  shows "policy_on_node root es (boots root envs s)"
  using assms unfolding boots_def
  by (induction envs arbitrary: s) (simp_all add: boot_keeps_policy)

subsection \<open>What a boot guarantees\<close>

text \<open>
  C8. After any number of boots that were cut short, at whatever file system call, map
  write, load or attach, a boot that nothing hinders completes: the policy the node had
  before the first of them is in the canonical maps in today's layout, exactly, the pinned
  link belongs to a program that reads these maps, and no staging directory is left.
\<close>

theorem boots_recover:
  assumes "policy_on_node root es s"
    and "\<forall>env \<in> set (env' # envs). reuses_pins root (be_load env)"
    and "unhindered root env' (boots root envs s)"
  shows "\<exists>r l c. fst (boot_enforcement env' root (boots root envs s)) = Inr r \<and>
     (let s' = snd (boot_enforcement env' root (boots root envs s)) in
        pin_node s' (deny_list_pin root) = Some (MapPin l) \<and>
        pin_node s' (deny_count_pin root) = Some (MapPin c) \<and>
        holds_current (bf_objs s') l c es \<and>
        pin_node s' (link_pin root) = Some (LinkPin l c) \<and> no_staging root (pin_node s'))"
proof -
  let ?s = "boots root envs s"
  obtain r s' where b: "boot_enforcement env' root ?s = (r, s')" by force
  have "policy_on_node root es ?s" using assms(1,2) by (intro boots_policy) simp_all
  from boot_ends [OF _ this, of env'] assms(2,3) b
  obtain x prog where "r = Inr x" "armed root es prog s'" "no_staging root (pin_node s')"
    by (cases r) auto
  then show ?thesis
    by (auto simp: b Let_def armed_def ready_def seeded_at_def prog_pinned_def)
qed

text \<open>
  C9. A boot never opens an enforcement gap on a node whose link is pinned: wherever it is
  cut short, one of the two link names holds the link of a program whose maps hold the
  policy, so the hook keeps denying what it denied before.
\<close>

theorem boot_keeps_enforcing:
  assumes "policy_on_node root es s" "reuses_pins root (be_load env)"
    and "pin_node s (link_pin root) = Some (LinkPin a b)" "holds_policy (bf_objs s) a b es"
  shows "guarded root es (snd (boot_enforcement env root s)) \<and> enforcing (snd (boot_enforcement env root s))"
  using boot_guarded [OF assms(2,1,3,4)] by (simp add: guarded_enforcing)

subsection \<open>A node to boot\<close>

text \<open>A loader that does what is asked of aya, and a node left by an agent of the old layout.\<close>

definition fresh_id :: "BpfFs \<Rightarrow> nat" where
  "fresh_id s = Suc (sum_list (map fst (bf_store s)))"

definition open_or_create :: "pin_path \<Rightarrow> MapObject \<Rightarrow> BpfFs \<Rightarrow> (nat + nat) \<times> BpfFs" where
  "open_or_create p m s =
     (case pin_node s p of
        Some (MapPin i) \<Rightarrow> (Inr i, s)
      | Some _ \<Rightarrow> (Inl 22, s)
      | None \<Rightarrow> (Inr (fresh_id s), (set_node p (MapPin (fresh_id s)) s)\<lparr>bf_store := (fresh_id s, m) # bf_store s\<rparr>))"

definition pinning_loader :: "pin_path \<Rightarrow> BpfFs \<Rightarrow> (nat + nat \<times> nat) \<times> BpfFs" where
  "pinning_loader root s =
     io_then (open_or_create (join root PATH_DENY_LIST_MAP) FRESH_LIST s) (\<lambda>l s.
     io_then (open_or_create (join root PATH_DENY_COUNT_MAP) FRESH_COUNT s) (\<lambda>c s. (Inr (l, c), s)))"

lemma fresh_id_free: "bf_objs s (fresh_id s) = None"
proof -
  have "i < fresh_id s" if "i \<in> set (map fst (bf_store s))" for i
    unfolding fresh_id_def using member_le_sum_list [OF that] by simp
  then have "fresh_id s \<notin> set (map fst (bf_store s))" by blast
  then show ?thesis by (simp add: map_of_eq_None_iff)
qed

lemma open_or_create_spec:
  assumes "open_or_create p m s = (r, s')"
  shows "\<forall>q. q \<noteq> p \<longrightarrow> pin_node s' q = pin_node s q" "extends_store (bf_objs s) (bf_objs s')"
    "pin_reused p m s s'" "r = Inr i \<Longrightarrow> pin_node s' p = Some (MapPin i)"
proof -
  have new: "bf_objs s i = None \<Longrightarrow> extends_store (bf_objs s) (bf_objs (t\<lparr>bf_store := (i, m) # bf_store s\<rparr>))" for i t
    by (auto simp: extends_store_def)
  show "\<forall>q. q \<noteq> p \<longrightarrow> pin_node s' q = pin_node s q" "extends_store (bf_objs s) (bf_objs s')"
    "pin_reused p m s s'" "r = Inr i \<Longrightarrow> pin_node s' p = Some (MapPin i)"
    using assms new [OF fresh_id_free] fresh_id_free [of s]
    by (auto simp: open_or_create_def pin_reused_def extends_store_def split: option.splits PinNode.splits)
qed

lemma extends_store_trans: "extends_store a b \<Longrightarrow> extends_store b c \<Longrightarrow> extends_store a c"
  by (simp add: extends_store_def)

lemma pinning_loader_reuses: "reuses_pins root (pinning_loader root)"
  unfolding reuses_pins_def
proof
  fix s
  obtain r1 s1 where 1: "open_or_create (deny_list_pin root) FRESH_LIST s = (r1, s1)" by force
  obtain r2 s2 where 2: "open_or_create (deny_count_pin root) FRESH_COUNT s1 = (r2, s2)" by force
  note a = open_or_create_spec [OF 1] and b = open_or_create_spec [OF 2]
  have "pin_node s1 (deny_count_pin root) = pin_node s (deny_count_pin root)"
    "pin_node s2 (deny_list_pin root) = pin_node s1 (deny_list_pin root)" using a(1) b(1) by simp_all
  moreover have "bf_objs s i = None" if "bf_objs s1 i = None" for i
    using a(2) that by (metis extends_store_def)
  moreover have "bf_objs s2 i = Some m" if "bf_objs s1 i = Some m" for i m
    using extends_store_Some [OF b(2) that] .
  ultimately have "pin_reused (deny_list_pin root) FRESH_LIST s s2" "pin_reused (deny_count_pin root) FRESH_COUNT s s2"
    using a(3) b(3) unfolding pin_reused_def by metis+
  moreover have "pin_reused (deny_count_pin root) FRESH_COUNT s s1" if "r1 = Inl e" for e
    using a(1) by (simp add: pin_reused_def)
  moreover have "extends_store (bf_objs s) (bf_objs s2)" by (rule extends_store_trans [OF a(2) b(2)])
  ultimately show "loader_step root s (fst (pinning_loader root s)) (snd (pinning_loader root s))"
    using a b unfolding loader_step_def extends_store_def
    by (cases r1; cases r2) (auto simp: pinning_loader_def 1 2)
qed

lemma pinning_loader_current: "loads_current root (pinning_loader root)"
  unfolding loads_current_def
proof (intro allI impI)
  fix s
  assume h: "\<forall>name \<in> {PATH_DENY_LIST_MAP, PATH_DENY_COUNT_MAP}. pin_node s (join root name) = None \<or>
      (\<exists>i. pin_node s (join root name) = Some (MapPin i) \<and> current_map (bf_objs s) name i)"
  have ok: "\<exists>i. fst (open_or_create p m t) = Inr i" if "pin_node t p = None \<or> (\<exists>i. pin_node t p = Some (MapPin i))" for p m t
    using that by (auto simp: open_or_create_def)
  obtain r1 s1 where 1: "open_or_create (deny_list_pin root) FRESH_LIST s = (r1, s1)" by force
  obtain l where l: "r1 = Inr l" using ok [of s "deny_list_pin root" FRESH_LIST] h 1 by auto
  have "pin_node s1 (deny_count_pin root) = pin_node s (deny_count_pin root)"
    using open_or_create_spec(1) [OF 1] by simp
  then obtain c s2 where "open_or_create (deny_count_pin root) FRESH_COUNT s1 = (Inr c, s2)"
    using ok [of s1 "deny_count_pin root" FRESH_COUNT] h by (metis insert_iff prod.collapse)
  with 1 l show "\<exists>prog. fst (pinning_loader root s) = Inr prog"
    by (simp add: pinning_loader_def)
qed

definition demo_rule :: LegacyPathDenyEntry where
  "demo_rule = \<lparr>lpd_len = 5, lpd_bytes = [47, 116, 109, 112, 47, 0, 0, 0, 0, 0, 0, 0, 0, 0, 0, 0]\<rparr>"

definition demo_policy :: "PathDenyEntry list" where
  "demo_policy = [the (widen demo_rule)]"

definition demo_root :: pin_path where
  "demo_root = DEFAULT_BPF_PIN_ROOT"

definition demo_node :: BpfFs where
  "demo_node =
     \<lparr>bf_tick = 0,
      bf_nodes = [([''sys''], DirNode), ([''sys'', ''fs''], DirNode), (BPFFS_MOUNT, DirNode), (demo_root, DirNode),
        (deny_list_pin demo_root, MapPin 1), (deny_count_pin demo_root, MapPin 2), (link_pin demo_root, LinkPin 1 2)],
      bf_store =
        [(1, \<lparr>mo_info = \<lparr>map_type = BPF_MAP_TYPE_ARRAY, key_size = 4, value_size = 20, max_entries = 64\<rparr>,
              mo_body = LegacyEntries (demo_rule # replicate 63 \<lparr>lpd_len = 0, lpd_bytes = replicate 16 0\<rparr>)\<rparr>),
         (2, FRESH_COUNT\<lparr>mo_body := Counters [1]\<rparr>)]\<rparr>"

text \<open>An agent killed before its \<open>n\<close>-th file system call, and one that nothing hinders.\<close>

definition killed_at :: "nat \<Rightarrow> BootEnv" where
  "killed_at n = \<lparr>be_faults = \<lambda>i. if i < n then None else Some 5, be_map_faults = \<lambda>_. None,
     be_load = pinning_loader demo_root, be_attach = None, be_now = 0\<rparr>"

definition demo_env :: BootEnv where
  "demo_env = \<lparr>be_faults = \<lambda>_. None, be_map_faults = \<lambda>_. None,
     be_load = pinning_loader demo_root, be_attach = None, be_now = 0\<rparr>"

lemma demo_holds: "holds_legacy (bf_objs demo_node) 1 2 demo_policy"
proof -
  have "widen demo_rule \<noteq> None" by code_simp
  then have "widen demo_rule = Some (the (widen demo_rule))" by auto
  then show ?thesis
    unfolding holds_legacy_def
    by (simp add: demo_node_def demo_policy_def is_legacy_path_deny_list_def matches_expected_def expected_count
        FRESH_COUNT_def PATH_DENY_MAX_ENTRIES_def PATH_DENY_ENTRY_SIZE_LEGACY_def PATH_DENY_KEY_BYTES_LEGACY_def)
qed

lemma demo_prefix: "q \<noteq> [] \<Longrightarrow> prefix q demo_root \<Longrightarrow> pin_node demo_node q = Some DirNode"
  by (auto simp: demo_root_def DEFAULT_BPF_PIN_ROOT_def BPFFS_MOUNT_def prefix_Cons demo_node_def)

lemma demo_pins:
  "pin_node demo_node (deny_list_pin demo_root) = Some (MapPin 1)"
  "pin_node demo_node (deny_count_pin demo_root) = Some (MapPin 2)"
  "pin_node demo_node (link_pin demo_root) = Some (LinkPin 1 2)"
  "pin_node demo_node (link_tmp_pin demo_root) = None"
  by code_simp+

lemma demo_base: "pin_base demo_root (pin_node demo_node) (bf_objs demo_node)"
proof -
  have "\<forall>n \<in> set proc_names. pin_node demo_node (join demo_root n) = None \<and>
      pin_node demo_node (proc_dir demo_root n) = None \<and> pin_node demo_node (join (proc_dir demo_root n) n) = None"
    by code_simp
  then have "list_all (proc_pin_ok demo_root (pin_node demo_node) (bf_objs demo_node)) proc_names"
    by (simp add: proc_pin_ok_def)
  then show ?thesis
    using demo_prefix by (simp add: pin_base_def demo_root_def DEFAULT_BPF_PIN_ROOT_def)
qed

lemma demo_on_node: "policy_on_node demo_root demo_policy demo_node"
proof -
  have "list_all (\<lambda>(q, n). length q \<le> Suc (length demo_root)) (bf_nodes demo_node)" by code_simp
  then have short: "length q \<le> Suc (length demo_root)" if "q \<in> fst ` set (bf_nodes demo_node)" for q
    using that unfolding list_all_iff by auto
  have "pin_node demo_node q = None" if "Suc (length demo_root) < length q" for q
    unfolding map_of_eq_None_iff using short [of q] that by linarith
  then have "no_deny_pins demo_root (pin_node demo_node) {}"
    unfolding no_deny_pins_def staging_dir_def by (intro allI impI conjI) (elim exE conjE, simp)+
  with demo_pins demo_holds have "legacy_intact demo_root demo_policy (pin_node demo_node) (bf_objs demo_node)"
    unfolding legacy_intact_def by blast
  then have "migrating demo_root demo_policy (pin_node demo_node) (bf_objs demo_node)"
    by (rule migrating.intact [OF demo_base])
  then show ?thesis
    unfolding policy_on_node_def link_names_ok_def using demo_pins(3,4) by simp
qed

lemma demo_killed: "pin_node (boots demo_root [killed_at 3] demo_node) (join demo_root (LEGACY_ABI_DIR_PREFIX @ show_nat 7)) = None"
  by code_simp


theorem boots_recover_witness:
  "\<exists>r l c. fst (boot_enforcement demo_env demo_root (boots demo_root [killed_at 3] demo_node)) = Inr r \<and>
     (let s' = snd (boot_enforcement demo_env demo_root (boots demo_root [killed_at 3] demo_node)) in
        pin_node s' (deny_list_pin demo_root) = Some (MapPin l) \<and>
        pin_node s' (deny_count_pin demo_root) = Some (MapPin c) \<and>
        holds_current (bf_objs s') l c demo_policy \<and>
        pin_node s' (link_pin demo_root) = Some (LinkPin l c) \<and> no_staging demo_root (pin_node s'))"
proof (rule boots_recover [OF demo_on_node])
  show "\<forall>env \<in> set [demo_env, killed_at 3]. reuses_pins demo_root (be_load env)"
    by (simp add: demo_env_def killed_at_def pinning_loader_reuses)
  have "staging_room demo_root (pin_node (boots demo_root [killed_at 3] demo_node))"
    unfolding staging_room_def list_ex_iff by (rule bexI [of _ 7]) (simp_all only: demo_killed, simp)
  then show "unhindered demo_root demo_env (boots demo_root [killed_at 3] demo_node)"
    by (simp add: unhindered_def demo_env_def pinning_loader_current demo_root_def DEFAULT_BPF_PIN_ROOT_def BPFFS_MOUNT_def)
qed

theorem boot_keeps_enforcing_witness:
  "guarded demo_root demo_policy (snd (boot_enforcement (killed_at 3) demo_root demo_node)) \<and>
   enforcing (snd (boot_enforcement (killed_at 3) demo_root demo_node))"
proof (rule boot_keeps_enforcing [OF demo_on_node])
  show "reuses_pins demo_root (be_load (killed_at 3))" by (simp add: killed_at_def pinning_loader_reuses)
  show "pin_node demo_node (link_pin demo_root) = Some (LinkPin 1 2)" by code_simp
  show "holds_policy (bf_objs demo_node) 1 2 demo_policy" unfolding holds_policy_def using demo_holds by (rule disjI1)
qed

text \<open>The node on which an agent was killed between the two steps that swap the link names.\<close>

definition demo_cut_handoff :: BpfFs where
  "demo_cut_handoff =
     snd (attach_and_pin_lsm_fail_closed (\<lambda>i. if i < 3 then None else Some 5) None (1, 2) demo_root demo_node)"


end
