(* ===== verification/Spec2Isabelle.thy ===== *)
theory Spec2Isabelle
  imports Env_Capture Teardown_Watch Policy_Sync Boot_Recovery
begin

text \<open>
  \<^bold>\<open>Neuromesh: the runtime sensor and its shared ABI.\<close>

  Neuromesh watches and guards process execution on a Kubernetes node. A BPF LSM program
  (\<open>apps/agent-ebpf-sensor/ebpf\<close>) denies an exec whose path starts with a governed prefix
  unless the cgroup of the caller holds a fresh identity exception; the agent in user space
  (\<open>apps/agent-ebpf-sensor/src\<close>) fills the maps that program reads from a signed policy
  bundle, correlates pods with cgroups, keeps the pinned maps usable across upgrades, and
  turns kernel records into rule matches and exported telemetry. Both sides share the crate
  \<open>packages/neuromesh-common\<close>.

  \<^bold>\<open>Theories.\<close>
  \<^item> \<open>Prelude\<close>, \<open>Rust_Str\<close>, \<open>Utf8\<close>: the parts of the Rust standard library the sources use.
  \<^item> \<open>Common_Abi\<close>, \<open>Env_Capture\<close>: \<open>packages/neuromesh-common/src/{lib,env_capture}.rs\<close>.
\<close>

end
